theory Spec2Isabelle
  imports Main "HOL-Library.Word"
begin

section \<open>The decode-and-sample engine of \<^verbatim>\<open>decoder_evaluator.cpp\<close>\<close>

text \<open>
  The theory embeds \<^verbatim>\<open>DecoderEvaluator\<close> (constructor, \<^verbatim>\<open>reset\<close>, \<^verbatim>\<open>evaluate\<close>).
  Machine integers are words: \<^verbatim>\<open>i32\<close> is \<open>32 word\<close> read by \<open>sint\<close>, compared by
  \<open><s\<close>; \<^verbatim>\<open>size_t\<close> is \<open>64 word\<close>. Signed overflow, which C++ leaves undefined, wraps
  around as the two's-complement hardware does. The two \<^verbatim>\<open>i64\<close> profiling counters
  are \<open>int\<close>: they grow by one per decoded frame and cannot reach \<open>2^63\<close>.

  A result of type \<open>(error + 'a) option\<close> is \<open>None\<close> when the code never returns,
  \<open>Some (Inl e)\<close> when the process stops at a failed assertion or an invalid memory
  access, and \<open>Some (Inr v)\<close> when it returns normally.
\<close>

type_synonym u8 = "8 word"
type_synonym i32 = "32 word"
type_synonym size_t = "64 word"

datatype error =
    AssertionFailed     \<comment> \<open>an \<^verbatim>\<open>assert\<close> of the source fails\<close>
  | IndexOutOfRange     \<comment> \<open>a vector or repeated field is read outside its bounds\<close>
  | BufferOverrun       \<comment> \<open>the encoded buffer is read past its end\<close>
  | Uninitialised       \<comment> \<open>GPU device in a build without \<^verbatim>\<open>HAVE_CUDA\<close>\<close>

subsection \<open>The sampling descriptor\<close>

text \<open>
  \<^verbatim>\<open>DecodeArgs\<close> is generated from the protocol description, which the source files do
  not include; the record has the accessors that \<^verbatim>\<open>evaluate\<close> calls.
  \<open>DecodeArgs_Other\<close> stands for any tag the four tests of \<^verbatim>\<open>evaluate\<close> reject.
\<close>

datatype Sampling =
    DecodeArgs_All
  | DecodeArgs_Strided
  | DecodeArgs_Gather
  | DecodeArgs_SequenceGather
  | DecodeArgs_Other

record Interval =
  interval_start :: i32
  interval_end :: i32

record DecodeArgs =
  sampling :: Sampling
  interval :: Interval
  stride :: i32
  gather_points :: "i32 list"
  gather_sequences :: "Interval list"
  warmup_count :: i32
  start_keyframe :: i32

definition gather_points_size :: "DecodeArgs \<Rightarrow> i32" where
  "gather_points_size args = word_of_nat (length (gather_points args))"

definition gather_sequences_size :: "DecodeArgs \<Rightarrow> i32" where
  "gather_sequences_size args = word_of_nat (length (gather_sequences args))"

text \<open>Reading a vector or repeated field at an \<^verbatim>\<open>i32\<close> index.\<close>

definition vector_at :: "'a list \<Rightarrow> i32 \<Rightarrow> error + 'a" where
  "vector_at xs i =
     (if 0 \<le>s i \<and> nat (sint i) < length xs then Inr (xs ! nat (sint i))
      else Inl IndexOutOfRange)"

definition gather_points_at :: "DecodeArgs \<Rightarrow> i32 \<Rightarrow> error + i32" where
  "gather_points_at args s = vector_at (gather_points args) s"

subsection \<open>Engine state\<close>

datatype DeviceType = CPU | GPU

record 'd DecoderEvaluator =
  device_type :: DeviceType
  device_id :: i32
  frame_size :: size_t
  needs_warmup :: bool
  discontinuity :: bool
  decoder :: 'd

text \<open>
  The constructor: both flags start out \<^verbatim>\<open>false\<close>. \<^verbatim>\<open>frame_size_\<close>, which the constructor
  leaves unset and \<^verbatim>\<open>configure\<close> computes from the metadata before any \<^verbatim>\<open>evaluate\<close>, is a
  parameter here.
\<close>

definition DecoderEvaluator_new :: "DeviceType \<Rightarrow> i32 \<Rightarrow> size_t \<Rightarrow> 'd \<Rightarrow> 'd DecoderEvaluator" where
  "DecoderEvaluator_new dt dev fs d =
     \<lparr>device_type = dt, device_id = dev, frame_size = fs,
      needs_warmup = False, discontinuity = False, decoder = d\<rparr>"

definition reset :: "'d DecoderEvaluator \<Rightarrow> 'd DecoderEvaluator" where
  "reset ev = ev\<lparr>needs_warmup := True, discontinuity := True\<rparr>"

subsection \<open>Computing the frames to keep\<close>

text \<open>
  \<^verbatim>\<open>for (; s < e; ++s) valid_frames.push_back(s);\<close> of the All and SequenceGather
  branches.
\<close>

function interval_loop :: "i32 \<Rightarrow> i32 \<Rightarrow> i32 list \<Rightarrow> i32 list" where
  "interval_loop s e valid_frames =
     (if s <s e then interval_loop (s + 1) e (valid_frames @ [s]) else valid_frames)"
  by pat_completeness auto
termination
proof (relation "measure (\<lambda>(s, e, vf). nat (sint e - sint s))")
  fix s e :: i32 and valid_frames :: "i32 list"
  assume "s <s e"
  then have lt: "sint s < sint e" by (simp add: word_sless_alt)
  moreover have "sint e < 2 ^ 31" using sint_lt [of e] by simp
  moreover have "- (2 ^ 31) \<le> sint s" using sint_ge [of s] by simp
  ultimately have "sint (s + 1) = sint s + 1"
    by (simp add: sint_word_ariths signed_take_bit_int_eq_self)
  with lt show "((s + 1, e, valid_frames @ [s]), s, e, valid_frames)
                  \<in> measure (\<lambda>(s, e, vf). nat (sint e - sint s))"
    by simp
qed simp

declare interval_loop.simps [simp del]

text \<open>\<^verbatim>\<open>for (; s < e; s += stride) valid_frames.push_back(s);\<close> may run forever.\<close>

partial_function (option) strided_loop :: "i32 \<Rightarrow> i32 \<Rightarrow> i32 \<Rightarrow> i32 list \<Rightarrow> i32 list option" where
  "strided_loop s e strd valid_frames =
     (if s <s e then strided_loop (s + strd) e strd (valid_frames @ [s])
      else Some valid_frames)"

text \<open>
  \<^verbatim>\<open>for (; s < args.gather_points_size(); ++s)
    valid_frames.push_back(args.gather_points(s));\<close>
\<close>

function gather_loop :: "DecodeArgs \<Rightarrow> i32 \<Rightarrow> i32 list \<Rightarrow> error + i32 list" where
  "gather_loop args s valid_frames =
     (if s <s gather_points_size args
      then (case gather_points_at args s of
              Inl err \<Rightarrow> Inl err
            | Inr p \<Rightarrow> gather_loop args (s + 1) (valid_frames @ [p]))
      else Inr valid_frames)"
  by pat_completeness auto
termination
proof (relation "measure (\<lambda>(args, s, vf). nat (sint (gather_points_size args) - sint s))")
  fix args :: DecodeArgs and s p :: i32 and valid_frames :: "i32 list"
  assume "s <s gather_points_size args"
  then have lt: "sint s < sint (gather_points_size args)" by (simp add: word_sless_alt)
  moreover have "sint (gather_points_size args) < 2 ^ 31"
    using sint_lt [of "gather_points_size args"] by simp
  moreover have "- (2 ^ 31) \<le> sint s" using sint_ge [of s] by simp
  ultimately have "sint (s + 1) = sint s + 1"
    by (simp add: sint_word_ariths signed_take_bit_int_eq_self)
  with lt show "((args, s + 1, valid_frames @ [p]), args, s, valid_frames)
                  \<in> measure (\<lambda>(args, s, vf). nat (sint (gather_points_size args) - sint s))"
    by simp
qed simp

declare gather_loop.simps [simp del]

text \<open>
  Lines 89 to 132 of \<^verbatim>\<open>evaluate\<close>: the branch on \<^verbatim>\<open>args.sampling()\<close>. The result holds
  \<^verbatim>\<open>valid_frames\<close> and the engine, whose \<^verbatim>\<open>discontinuity_\<close> the gather branches set.
\<close>

definition compute_valid_frames ::
  "'d DecoderEvaluator \<Rightarrow> DecodeArgs \<Rightarrow> (error + i32 list \<times> 'd DecoderEvaluator) option" where
  "compute_valid_frames ev args =
     (if sampling args = DecodeArgs_All then
        (let s = interval_start (interval args);
             s = (if \<not> needs_warmup ev then s + warmup_count args else s)
         in Some (Inr (interval_loop s (interval_end (interval args)) [], ev)))
      else if sampling args = DecodeArgs_Strided then
        (let s = interval_start (interval args);
             e = interval_end (interval args);
             strd = stride args;
             s = (if \<not> needs_warmup ev then s + warmup_count args * strd else s)
         in case strided_loop s e strd [] of
              None \<Rightarrow> None
            | Some valid_frames \<Rightarrow> Some (Inr (valid_frames, ev)))
      else if sampling args = DecodeArgs_Gather then
        (let s = 0;
             s = (if \<not> needs_warmup ev then s + warmup_count args else s)
         in case gather_loop args s [] of
              Inl err \<Rightarrow> Some (Inl err)
            | Inr valid_frames \<Rightarrow> Some (Inr (valid_frames, ev\<lparr>discontinuity := True\<rparr>)))
      else if sampling args = DecodeArgs_SequenceGather then
        (if gather_sequences_size args \<noteq> 1 then Some (Inl AssertionFailed)
         else case gather_sequences args of
           [] \<Rightarrow> Some (Inl IndexOutOfRange)
         | seq0 # _ \<Rightarrow>
            (let s = interval_start seq0;
                 s = (if \<not> needs_warmup ev then s + warmup_count args else s)
             in Some (Inr (interval_loop s (interval_end seq0) [],
                           ev\<lparr>discontinuity := True\<rparr>))))
      else Some (Inl AssertionFailed))"

subsection \<open>The collaborators of the engine\<close>

text \<open>
  The source files call the video decoder and the descriptor deserialiser without
  defining them, and \<^verbatim>\<open>HAVE_CUDA\<close> is set by the build. They are parameters of the
  model: \<open>'d\<close> is the decoder's own state, and each decoder call takes it and returns
  it updated. A packet pointer is the memory it points to (\<open>None\<close> for \<^verbatim>\<open>NULL\<close>).
\<close>

record 'd externals =
  HAVE_CUDA :: bool
  deserialize_decode_args :: "u8 list \<Rightarrow> size_t \<Rightarrow> DecodeArgs"
  feed :: "u8 list option \<Rightarrow> i32 \<Rightarrow> bool \<Rightarrow> 'd \<Rightarrow> bool \<times> 'd"
  get_frame :: "size_t \<Rightarrow> 'd \<Rightarrow> (bool \<times> u8 list) \<times> 'd"
  discard_frame :: "'d \<Rightarrow> bool \<times> 'd"
  decoded_frames_buffered :: "'d \<Rightarrow> i32"
  wait_until_frames_copied :: "'d \<Rightarrow> 'd"

subsection \<open>The state of one \<^verbatim>\<open>evaluate\<close> call\<close>

text \<open>
  An output buffer is what \<^verbatim>\<open>get_frame\<close> wrote into it. \<open>frame_index\<close> is bookkeeping
  of the model that the program does not store: the value of \<^verbatim>\<open>current_frame\<close> when
  the buffer was filled.
\<close>

record frame_buffer =
  frame_index :: i32
  frame_data :: "u8 list"

record 'd frame_state =
  evaluator :: "'d DecoderEvaluator"
  output_buffers :: "frame_buffer list list"
  output_sizes :: "size_t list list"
  total_frames_decoded :: int
  total_frames_used :: int
  encoded_buffer_offset :: size_t
  current_frame :: i32
  valid_index :: i32

text \<open>\<^verbatim>\<open>v[0].push_back(x)\<close> on a vector of vectors.\<close>

definition push_back0 :: "'a \<Rightarrow> 'a list list \<Rightarrow> error + 'a list list" where
  "push_back0 x v = (case v of [] \<Rightarrow> Inl IndexOutOfRange | c # cs \<Rightarrow> Inr ((c @ [x]) # cs))"

text \<open>
  \<^verbatim>\<open>*reinterpret_cast<const i32*>(encoded_buffer + encoded_buffer_offset)\<close>, on a
  little-endian machine.
\<close>

definition read_i32 :: "u8 list \<Rightarrow> size_t \<Rightarrow> error + i32" where
  "read_i32 buf off =
     (if unat off + 4 \<le> length buf
      then Inr (word_rcat (rev (take 4 (drop (unat off) buf))))
      else Inl BufferOverrun)"

text \<open>
  Lines 142 to 150: the next length-prefixed packet, or the empty packet once the
  offset has reached \<^verbatim>\<open>encoded_buffer_size\<close>. The result is the packet size, the packet
  pointer and the new offset.
\<close>

definition next_packet ::
  "u8 list \<Rightarrow> size_t \<Rightarrow> size_t \<Rightarrow> error + i32 \<times> u8 list option \<times> size_t" where
  "next_packet encoded_buffer encoded_buffer_size off =
     (if off < encoded_buffer_size then
        (case read_i32 encoded_buffer off of
           Inl err \<Rightarrow> Inl err
         | Inr encoded_packet_size \<Rightarrow>
             (let off1 = off + 4
              in Inr (encoded_packet_size,
                      Some (drop (unat off1) encoded_buffer),
                      off1 + scast encoded_packet_size)))
      else Inr (0, None, off))"

subsection \<open>The decode loop\<close>

text \<open>
  Lines 156 to 168, the body of the inner \<^verbatim>\<open>while\<close>: keep the frame when its index is
  the next one wanted, discard it otherwise. The result holds \<^verbatim>\<open>more_frames\<close>.
\<close>

definition drain_step ::
  "'d externals \<Rightarrow> i32 list \<Rightarrow> 'd frame_state \<Rightarrow> error + bool \<times> 'd frame_state" where
  "drain_step ext valid_frames st =
     (case vector_at valid_frames (valid_index st) of
        Inl err \<Rightarrow> Inl err
      | Inr wanted \<Rightarrow>
          (if current_frame st = wanted then
             (case get_frame ext (frame_size (evaluator st)) (decoder (evaluator st)) of
                ((more_frames, decoded_buffer), d) \<Rightarrow>
                  (case push_back0 \<lparr>frame_index = current_frame st, frame_data = decoded_buffer\<rparr>
                          (output_buffers st) of
                     Inl err \<Rightarrow> Inl err
                   | Inr bufs \<Rightarrow>
                       (case push_back0 (frame_size (evaluator st)) (output_sizes st) of
                          Inl err \<Rightarrow> Inl err
                        | Inr sizes \<Rightarrow>
                            Inr (more_frames,
                                 st\<lparr>evaluator := (evaluator st)\<lparr>decoder := d\<rparr>,
                                    output_buffers := bufs,
                                    output_sizes := sizes,
                                    valid_index := valid_index st + 1,
                                    total_frames_used := total_frames_used st + 1,
                                    current_frame := current_frame st + 1,
                                    total_frames_decoded := total_frames_decoded st + 1\<rparr>))))
           else
             (case discard_frame ext (decoder (evaluator st)) of
                (more_frames, d) \<Rightarrow>
                  Inr (more_frames,
                       st\<lparr>evaluator := (evaluator st)\<lparr>decoder := d\<rparr>,
                          current_frame := current_frame st + 1,
                          total_frames_decoded := total_frames_decoded st + 1\<rparr>))))"

text \<open>
  \<^verbatim>\<open>while (more_frames && valid_index < total_output_frames)\<close>, lines 155 to 169.
\<close>

partial_function (option) drain_loop ::
  "'d externals \<Rightarrow> i32 list \<Rightarrow> i32 \<Rightarrow> bool \<Rightarrow> 'd frame_state \<Rightarrow> (error + 'd frame_state) option"
where
  "drain_loop ext valid_frames total_output_frames more_frames st =
     (if more_frames \<and> valid_index st <s total_output_frames then
        (case drain_step ext valid_frames st of
           Inl err \<Rightarrow> Some (Inl err)
         | Inr (more_frames', st') \<Rightarrow>
             drain_loop ext valid_frames total_output_frames more_frames' st')
      else Some (Inr st))"

text \<open>
  Lines 140 to 173, the body of the outer \<^verbatim>\<open>while\<close>: take the next packet, feed it
  with the current \<^verbatim>\<open>discontinuity_\<close>, drain the decoder when it reports frames, and
  set \<^verbatim>\<open>discontinuity_\<close> to whether the packet was empty.
\<close>

definition decode_iteration ::
  "'d externals \<Rightarrow> i32 list \<Rightarrow> i32 \<Rightarrow> u8 list \<Rightarrow> size_t \<Rightarrow> 'd frame_state
     \<Rightarrow> (error + 'd frame_state) option" where
  "decode_iteration ext valid_frames total_output_frames encoded_buffer encoded_buffer_size st =
     (case next_packet encoded_buffer encoded_buffer_size (encoded_buffer_offset st) of
        Inl err \<Rightarrow> Some (Inl err)
      | Inr (encoded_packet_size, encoded_packet, off) \<Rightarrow>
          (case feed ext encoded_packet encoded_packet_size
                  (discontinuity (evaluator st)) (decoder (evaluator st)) of
             (new_frames, d) \<Rightarrow>
               (let st1 = st\<lparr>encoded_buffer_offset := off,
                             evaluator := (evaluator st)\<lparr>decoder := d\<rparr>\<rparr>
                in case (if new_frames
                         then drain_loop ext valid_frames total_output_frames True st1
                         else Some (Inr st1)) of
                     None \<Rightarrow> None
                   | Some (Inl err) \<Rightarrow> Some (Inl err)
                   | Some (Inr st2) \<Rightarrow>
                       Some (Inr (st2\<lparr>evaluator := (evaluator st2)
                                    \<lparr>discontinuity := (encoded_packet_size = 0)\<rparr>\<rparr>)))))"

text \<open>\<^verbatim>\<open>while (valid_index < total_output_frames)\<close>, lines 139 to 174.\<close>

partial_function (option) decode_loop ::
  "'d externals \<Rightarrow> i32 list \<Rightarrow> i32 \<Rightarrow> u8 list \<Rightarrow> size_t \<Rightarrow> 'd frame_state
     \<Rightarrow> (error + 'd frame_state) option"
where
  "decode_loop ext valid_frames total_output_frames encoded_buffer encoded_buffer_size st =
     (if valid_index st <s total_output_frames then
        (case decode_iteration ext valid_frames total_output_frames
                encoded_buffer encoded_buffer_size st of
           None \<Rightarrow> None
         | Some (Inl err) \<Rightarrow> Some (Inl err)
         | Some (Inr st') \<Rightarrow>
             decode_loop ext valid_frames total_output_frames
               encoded_buffer encoded_buffer_size st')
      else Some (Inr st))"

text \<open>\<^verbatim>\<open>while (decoder_->discard_frame()) { total_frames_decoded++; }\<close>, line 179.\<close>

partial_function (option) discard_loop ::
  "'d externals \<Rightarrow> 'd frame_state \<Rightarrow> 'd frame_state option"
where
  "discard_loop ext st =
     (case discard_frame ext (decoder (evaluator st)) of
        (had_frame, d) \<Rightarrow>
          (let st' = st\<lparr>evaluator := (evaluator st)\<lparr>decoder := d\<rparr>\<rparr>
           in if had_frame
              then discard_loop ext (st'\<lparr>total_frames_decoded := total_frames_decoded st' + 1\<rparr>)
              else Some st'))"

text \<open>Lines 175 to 182: wait for the copies, then empty the decoder.\<close>

definition drain_decoder :: "'d externals \<Rightarrow> 'd frame_state \<Rightarrow> 'd frame_state option" where
  "drain_decoder ext st =
     (let st1 = st\<lparr>evaluator := (evaluator st)
                   \<lparr>decoder := wait_until_frames_copied ext (decoder (evaluator st))\<rparr>\<rparr>
      in if 0 <s decoded_frames_buffered ext (decoder (evaluator st1))
         then discard_loop ext st1
         else Some st1)"

subsection \<open>\<^verbatim>\<open>evaluate\<close>\<close>

text \<open>
  Lines 89 to 189 for one descriptor \<open>args\<close> and its encoded buffer: the frames to
  keep, the decode loop from \<^verbatim>\<open>start_keyframe\<close>, the final drain, and
  \<^verbatim>\<open>needs_warmup_ = false\<close>.
\<close>

definition decode_args ::
  "'d externals \<Rightarrow> DecodeArgs \<Rightarrow> u8 list \<Rightarrow> size_t \<Rightarrow> 'd frame_state
     \<Rightarrow> (error + 'd frame_state) option" where
  "decode_args ext args encoded_buffer encoded_buffer_size st =
     (case compute_valid_frames (evaluator st) args of
        None \<Rightarrow> None
      | Some (Inl err) \<Rightarrow> Some (Inl err)
      | Some (Inr (valid_frames, ev)) \<Rightarrow>
          (let total_output_frames = (word_of_nat (length valid_frames) :: i32);
               st0 = st\<lparr>evaluator := ev,
                         encoded_buffer_offset := 0,
                         current_frame := start_keyframe args,
                         valid_index := 0\<rparr>
           in case decode_loop ext valid_frames total_output_frames
                     encoded_buffer encoded_buffer_size st0 of
                None \<Rightarrow> None
              | Some (Inl err) \<Rightarrow> Some (Inl err)
              | Some (Inr st1) \<Rightarrow>
                  (case drain_decoder ext st1 of
                     None \<Rightarrow> None
                   | Some st2 \<Rightarrow>
                       Some (Inr (st2\<lparr>evaluator := (evaluator st2)
                                    \<lparr>needs_warmup := False\<rparr>\<rparr>)))))"

text \<open>
  Lines 59 to 87 and the rest of the body of the \<^verbatim>\<open>for\<close> loop, for input \<open>i\<close>. An input
  pointer is modelled by the bytes it points to. On a GPU device the two buffers are
  copied to the host first, which changes no value; without \<^verbatim>\<open>HAVE_CUDA\<close> the GPU
  branch is empty and \<^verbatim>\<open>encoded_buffer\<close> is never set.
\<close>

definition evaluate_input ::
  "'d externals \<Rightarrow> u8 list list list \<Rightarrow> size_t list list \<Rightarrow> nat \<Rightarrow> 'd frame_state
     \<Rightarrow> (error + 'd frame_state) option" where
  "evaluate_input ext input_buffers input_sizes i st =
     (if 1 < length input_buffers \<and> 1 < length input_sizes
         \<and> i < length (input_buffers ! 1) \<and> i < length (input_sizes ! 1)
         \<and> i < length (input_buffers ! 0) \<and> i < length (input_sizes ! 0)
      then
        (let decode_args_buffer = input_buffers ! 1 ! i;
             decode_args_buffer_size = input_sizes ! 1 ! i;
             in_encoded_buffer = input_buffers ! 0 ! i;
             in_encoded_buffer_size = input_sizes ! 0 ! i
         in if device_type (evaluator st) = GPU \<and> \<not> HAVE_CUDA ext
            then Some (Inl Uninitialised)
            else decode_args ext
                   (deserialize_decode_args ext decode_args_buffer decode_args_buffer_size)
                   in_encoded_buffer in_encoded_buffer_size st)
      else Some (Inl IndexOutOfRange))"

text \<open>\<^verbatim>\<open>for (size_t i = 0; i < num_inputs; ++i)\<close>, line 58.\<close>

function inputs_loop ::
  "'d externals \<Rightarrow> u8 list list list \<Rightarrow> size_t list list \<Rightarrow> nat \<Rightarrow> nat \<Rightarrow> 'd frame_state
     \<Rightarrow> (error + 'd frame_state) option" where
  "inputs_loop ext input_buffers input_sizes num_inputs i st =
     (if i < num_inputs then
        (case evaluate_input ext input_buffers input_sizes i st of
           None \<Rightarrow> None
         | Some (Inl err) \<Rightarrow> Some (Inl err)
         | Some (Inr st') \<Rightarrow> inputs_loop ext input_buffers input_sizes num_inputs (i + 1) st')
      else Some (Inr st))"
  by pat_completeness auto
termination
  by (relation "measure (\<lambda>(ext, ib, isz, num_inputs, i, st). num_inputs - i)") auto

declare inputs_loop.simps [simp del]

text \<open>
  \<^verbatim>\<open>evaluate\<close>. The result holds the engine, the output vectors, and the two totals
  that go to the profiler.
\<close>

definition evaluate ::
  "'d externals \<Rightarrow> 'd DecoderEvaluator \<Rightarrow> u8 list list list \<Rightarrow> size_t list list
     \<Rightarrow> frame_buffer list list \<Rightarrow> size_t list list \<Rightarrow> (error + 'd frame_state) option" where
  "evaluate ext ev input_buffers input_sizes out_buffers out_sizes =
     (let num_inputs = (if input_buffers = [] then 0 else length (input_buffers ! 0))
      in inputs_loop ext input_buffers input_sizes num_inputs 0
           \<lparr>evaluator = ev, output_buffers = out_buffers, output_sizes = out_sizes,
            total_frames_decoded = 0, total_frames_used = 0,
            encoded_buffer_offset = 0, current_frame = 0, valid_index = 0\<rparr>)"

text \<open>The loops that may not terminate are executable through their unfolding equations.\<close>

declare strided_loop.simps [code] drain_loop.simps [code] decode_loop.simps [code]
  discard_loop.simps [code]

subsection \<open>The sampling plans the specification names\<close>

text \<open>
  \<open>frame_range s e\<close> is the plan \<open>[s, e)\<close>: the indices from \<open>s\<close> up to but without
  \<open>e\<close>, in increasing order. \<open>arith_seq s strd n\<close> is the arithmetic sequence of \<open>n\<close>
  indices \<open>s, s + strd, s + 2 * strd, ...\<close>. \<open>plan_start ev s skip\<close> is the first index
  of a plan: \<open>s\<close> while the engine needs warmup, \<open>s + skip\<close> once it does not.
\<close>

definition frame_range :: "i32 \<Rightarrow> i32 \<Rightarrow> i32 list" where
  "frame_range s e = map word_of_int [sint s .. sint e - 1]"

definition arith_seq :: "i32 \<Rightarrow> i32 \<Rightarrow> nat \<Rightarrow> i32 list" where
  "arith_seq s strd n = map (\<lambda>k. s + word_of_nat k * strd) [0..<n]"

definition plan_start :: "'d DecoderEvaluator \<Rightarrow> i32 \<Rightarrow> i32 \<Rightarrow> i32" where
  "plan_start ev s skip = (if needs_warmup ev then s else s + skip)"

text \<open>
  \<open>appended0 v xs\<close> is the vector of vectors \<open>v\<close> after \<open>xs\<close> has been pushed onto its
  first element. \<open>kept_so_far valid_frames st0 st\<close> is the invariant of the decode loop
  started in \<open>st0\<close>: the buffers pushed so far were filled at the first \<open>valid_index\<close>
  indices of \<open>valid_frames\<close>, in that order, each with its size, and the counters
  have moved accordingly.
\<close>

definition appended0 :: "'a list list \<Rightarrow> 'a list \<Rightarrow> 'a list list" where
  "appended0 v xs = (case v of [] \<Rightarrow> [] | c # cs \<Rightarrow> (c @ xs) # cs)"

definition kept_so_far :: "i32 list \<Rightarrow> 'd frame_state \<Rightarrow> 'd frame_state \<Rightarrow> bool" where
  "kept_so_far valid_frames st0 st \<longleftrightarrow>
     0 \<le> sint (valid_index st) \<and> nat (sint (valid_index st)) \<le> length valid_frames
     \<and> (\<exists>bufs. output_buffers st = appended0 (output_buffers st0) bufs
            \<and> map frame_index bufs = take (nat (sint (valid_index st))) valid_frames
            \<and> output_sizes st
                = appended0 (output_sizes st0)
                    (replicate (length bufs) (frame_size (evaluator st0))))
     \<and> total_frames_used st = total_frames_used st0 + sint (valid_index st)
     \<and> total_frames_used st - total_frames_used st0
           \<le> total_frames_decoded st - total_frames_decoded st0
     \<and> needs_warmup (evaluator st) = needs_warmup (evaluator st0)
     \<and> frame_size (evaluator st) = frame_size (evaluator st0)
     \<and> device_type (evaluator st) = device_type (evaluator st0)
     \<and> device_id (evaluator st) = device_id (evaluator st0)"

subsection \<open>A test decoder and test inputs\<close>

text \<open>
  The examples run the engine on a decoder that yields one frame per non-empty
  packet and logs the \<^verbatim>\<open>discontinuity\<close> flag of every \<^verbatim>\<open>feed\<close>; \<open>silent_externals\<close>
  is a decoder that never reports a frame. \<open>three_packets\<close> is an encoded buffer of
  three packets of one byte each, and \<open>test_deserialize\<close> reads a one-byte descriptor
  \<open>[k]\<close> as the All descriptor of \<open>[0, k)\<close>.
\<close>

record test_decoder =
  buffered :: nat
  fed :: "bool list"

definition test_deserialize :: "u8 list \<Rightarrow> size_t \<Rightarrow> DecodeArgs" where
  "test_deserialize buf n =
     \<lparr>sampling = DecodeArgs_All,
      interval = \<lparr>interval_start = 0,
                  interval_end = (case buf of [] \<Rightarrow> 0 | b # _ \<Rightarrow> ucast b)\<rparr>,
      stride = 0, gather_points = [], gather_sequences = [], warmup_count = 0,
      start_keyframe = 0\<rparr>"

definition test_externals :: "test_decoder externals" where
  "test_externals =
     \<lparr>HAVE_CUDA = False,
      deserialize_decode_args = test_deserialize,
      feed = (\<lambda>pkt n disc d.
                (let b = buffered d + (if n = 0 then 0 else 1)
                 in (0 < b, \<lparr>buffered = b, fed = fed d @ [disc]\<rparr>))),
      get_frame = (\<lambda>n d. ((1 < buffered d, []), d\<lparr>buffered := buffered d - 1\<rparr>)),
      discard_frame = (\<lambda>d. (1 < buffered d, d\<lparr>buffered := buffered d - 1\<rparr>)),
      decoded_frames_buffered = (\<lambda>d. word_of_nat (buffered d)),
      wait_until_frames_copied = (\<lambda>d. d)\<rparr>"

definition test_evaluator :: "test_decoder DecoderEvaluator" where
  "test_evaluator = DecoderEvaluator_new CPU 0 12 \<lparr>buffered = 0, fed = []\<rparr>"

definition three_packets :: "u8 list" where
  "three_packets = [1, 0, 0, 0, 170, 1, 0, 0, 0, 187, 1, 0, 0, 0, 204]"

definition test_state :: "test_decoder DecoderEvaluator \<Rightarrow> test_decoder frame_state" where
  "test_state ev =
     \<lparr>evaluator = ev, output_buffers = [[]], output_sizes = [[]],
      total_frames_decoded = 0, total_frames_used = 0,
      encoded_buffer_offset = 0, current_frame = 0, valid_index = 0\<rparr>"

definition all_args :: "i32 \<Rightarrow> i32 \<Rightarrow> i32 \<Rightarrow> DecodeArgs" where
  "all_args s e w =
     \<lparr>sampling = DecodeArgs_All, interval = \<lparr>interval_start = s, interval_end = e\<rparr>,
      stride = 0, gather_points = [], gather_sequences = [], warmup_count = w,
      start_keyframe = 0\<rparr>"

definition gather_args :: "i32 list \<Rightarrow> i32 \<Rightarrow> DecodeArgs" where
  "gather_args points w =
     \<lparr>sampling = DecodeArgs_Gather, interval = \<lparr>interval_start = 0, interval_end = 0\<rparr>,
      stride = 0, gather_points = points, gather_sequences = [], warmup_count = w,
      start_keyframe = 0\<rparr>"

definition sequence_args :: "Interval list \<Rightarrow> i32 \<Rightarrow> DecodeArgs" where
  "sequence_args seqs w =
     \<lparr>sampling = DecodeArgs_SequenceGather,
      interval = \<lparr>interval_start = 0, interval_end = 0\<rparr>,
      stride = 0, gather_points = [], gather_sequences = seqs, warmup_count = w,
      start_keyframe = 0\<rparr>"

definition strided_args :: "i32 \<Rightarrow> i32 \<Rightarrow> i32 \<Rightarrow> i32 \<Rightarrow> DecodeArgs" where
  "strided_args s e strd w =
     \<lparr>sampling = DecodeArgs_Strided, interval = \<lparr>interval_start = s, interval_end = e\<rparr>,
      stride = strd, gather_points = [], gather_sequences = [], warmup_count = w,
      start_keyframe = 0\<rparr>"

definition one_input :: "u8 list list list" where
  "one_input = [[three_packets], [[3]]]"

definition one_input_sizes :: "size_t list list" where
  "one_input_sizes = [[15], [1]]"


text \<open>
  The states the examples end in: \<open>three_frames_state\<close> after the three packets were
  decoded for the plan \<open>[0, 1, 2]\<close> on a reset engine, \<open>first_frame_state\<close> after the first
  pass of that decode loop, \<open>two_frames_state\<close> after a Gather plan \<open>[0, 1]\<close> on a new
  engine.
\<close>

definition three_frames_state :: "test_decoder frame_state" where
  "three_frames_state =
     \<lparr>evaluator =
        \<lparr>device_type = CPU, device_id = 0, frame_size = 12,
         needs_warmup = False, discontinuity = False,
         decoder = \<lparr>buffered = 0, fed = [True, False, False]\<rparr>\<rparr>,
      output_buffers =
        [[\<lparr>frame_index = 0, frame_data = []\<rparr>,
          \<lparr>frame_index = 1, frame_data = []\<rparr>,
          \<lparr>frame_index = 2, frame_data = []\<rparr>]],
      output_sizes = [[12, 12, 12]],
      total_frames_decoded = 3, total_frames_used = 3,
      encoded_buffer_offset = 15, current_frame = 3, valid_index = 3\<rparr>"

definition first_frame_state :: "test_decoder frame_state" where
  "first_frame_state =
     \<lparr>evaluator =
        \<lparr>device_type = CPU, device_id = 0, frame_size = 12,
         needs_warmup = True, discontinuity = False,
         decoder = \<lparr>buffered = 0, fed = [True]\<rparr>\<rparr>,
      output_buffers = [[\<lparr>frame_index = 0, frame_data = []\<rparr>]],
      output_sizes = [[12]],
      total_frames_decoded = 1, total_frames_used = 1,
      encoded_buffer_offset = 5, current_frame = 1, valid_index = 1\<rparr>"

definition two_frames_state :: "test_decoder frame_state" where
  "two_frames_state =
     \<lparr>evaluator =
        \<lparr>device_type = CPU, device_id = 0, frame_size = 12,
         needs_warmup = False, discontinuity = False,
         decoder = \<lparr>buffered = 0, fed = [True, False]\<rparr>\<rparr>,
      output_buffers =
        [[\<lparr>frame_index = 0, frame_data = []\<rparr>,
          \<lparr>frame_index = 1, frame_data = []\<rparr>]],
      output_sizes = [[12, 12]],
      total_frames_decoded = 2, total_frames_used = 2,
      encoded_buffer_offset = 10, current_frame = 2, valid_index = 2\<rparr>"


text \<open>
  \<open>warming_state\<close> is \<open>three_frames_state\<close> as the decode loop leaves it, before
  \<^verbatim>\<open>needs_warmup_\<close> is cleared.
\<close>

definition warming_state :: "test_decoder frame_state" where
  "warming_state =
     three_frames_state\<lparr>evaluator := (evaluator three_frames_state)\<lparr>needs_warmup := True\<rparr>\<rparr>"

section \<open>Properties of the sampling plan\<close>

lemma sint_succ_below:
  fixes s e :: i32
  assumes "s <s e"
  shows "sint (s + 1) = sint s + 1"
proof -
  have "sint s < sint e" using assms by (simp add: word_sless_alt)
  moreover have "sint e < 2 ^ 31" using sint_lt [of e] by simp
  moreover have "- (2 ^ 31) \<le> sint s" using sint_ge [of s] by simp
  ultimately show ?thesis
    by (simp add: sint_word_ariths signed_take_bit_int_eq_self)
qed

lemma sint_word_of_int_i32:
  "- (2 ^ 31) \<le> i \<Longrightarrow> i < 2 ^ 31 \<Longrightarrow> sint (word_of_int i :: i32) = i"
  by (simp add: sint_sbintrunc' signed_take_bit_int_eq_self)

lemma sint_i32_bounds: "- (2 ^ 31) \<le> sint (x :: i32)" "sint (x :: i32) < 2 ^ 31"
  using sint_ge [of x] sint_lt [of x] by simp_all

lemma frame_range_rec:
  "s <s e \<Longrightarrow> frame_range s e = s # frame_range (s + 1) e"
  by (simp add: frame_range_def word_sless_alt sint_succ_below upto_rec1)

lemma frame_range_empty: "\<not> s <s e \<Longrightarrow> frame_range s e = []"
  by (simp add: frame_range_def word_sless_alt)

lemma interval_loop_eq: "interval_loop s e acc = acc @ frame_range s e"
proof (induction s e acc rule: interval_loop.induct)
  case (1 s e acc)
  show ?case
  proof (cases "s <s e")
    case True
    then show ?thesis
      using "1.IH" by (subst interval_loop.simps) (simp add: frame_range_rec)
  next
    case False
    then show ?thesis
      by (subst interval_loop.simps) (simp add: frame_range_empty)
  qed
qed


lemma set_frame_range: "set (frame_range s e) = {x. s \<le>s x \<and> x <s e}"
proof (rule set_eqI)
  fix x :: i32
  show "x \<in> set (frame_range s e) \<longleftrightarrow> x \<in> {x. s \<le>s x \<and> x <s e}"
  proof
    assume "x \<in> set (frame_range s e)"
    then obtain i where i: "sint s \<le> i" "i \<le> sint e - 1" and x: "x = word_of_int i"
      by (auto simp: frame_range_def)
    have "sint x = i"
      unfolding x using i sint_i32_bounds [of s] sint_i32_bounds [of e]
      by (intro sint_word_of_int_i32) linarith+
    then show "x \<in> {x. s \<le>s x \<and> x <s e}"
      using i by (simp add: word_sle_eq word_sless_alt)
  next
    assume "x \<in> {x. s \<le>s x \<and> x <s e}"
    then have "sint s \<le> sint x" "sint x \<le> sint e - 1"
      by (simp_all add: word_sle_eq word_sless_alt)
    then have "sint x \<in> set [sint s .. sint e - 1]" by simp
    moreover have "x = word_of_int (sint x)" by simp
    ultimately have "x \<in> word_of_int ` set [sint s .. sint e - 1]"
      by (rule image_eqI [rotated])
    then show "x \<in> set (frame_range s e)" by (simp add: frame_range_def)
  qed
qed

lemma sorted_frame_range: "sorted_wrt (<s) (frame_range s e)"
proof -
  have "sorted_wrt (\<lambda>a b. (word_of_int a :: i32) <s word_of_int b) [sint s .. sint e - 1]"
  proof (rule sorted_wrt_mono_rel [where P = "(<)"])
    fix a b :: int
    assume a: "a \<in> set [sint s .. sint e - 1]" and b: "b \<in> set [sint s .. sint e - 1]"
      and lt: "a < b"
    have "- (2 ^ 31) \<le> a" "a < 2 ^ 31" "- (2 ^ 31) \<le> b" "b < 2 ^ 31"
      using a b sint_i32_bounds [of s] sint_i32_bounds [of e] by auto
    then have "sint (word_of_int a :: i32) = a" "sint (word_of_int b :: i32) = b"
      by (simp_all add: sint_word_of_int_i32)
    then show "(word_of_int a :: i32) <s word_of_int b"
      using lt by (simp add: word_sless_alt)
  next
    show "sorted_wrt (<) [sint s .. sint e - 1]"
      using sorted_wrt_upto strict_sorted_iff by simp
  qed
  then show ?thesis by (simp add: frame_range_def sorted_wrt_map)
qed

lemma arith_seq_0: "arith_seq s strd 0 = []"
  by (simp add: arith_seq_def)

lemma arith_seq_Suc: "arith_seq s strd (Suc n) = s # arith_seq (s + strd) strd n"
proof -
  have "[0..<Suc n] = 0 # map Suc [0..<n]"
    by (simp add: upt_conv_Cons map_Suc_upt del: upt_Suc)
  then have "arith_seq s strd (Suc n)
             = s # map (\<lambda>k. s + word_of_nat (Suc k) * strd) [0..<n]"
    by (simp add: arith_seq_def comp_def del: upt_Suc)
  also have "map (\<lambda>k. s + word_of_nat (Suc k) * strd) [0..<n] = arith_seq (s + strd) strd n"
    by (simp add: arith_seq_def algebra_simps)
  finally show ?thesis .
qed

lemma strided_loop_result:
  assumes "strided_loop s e strd acc = Some vf"
  shows "\<exists>n. vf = acc @ arith_seq s strd n
             \<and> (\<forall>x \<in> set (arith_seq s strd n). x <s e)
             \<and> \<not> (s + word_of_nat n * strd <s e)"
proof (rule strided_loop.raw_induct
    [where P = "\<lambda>s e strd acc vf. \<exists>n. vf = acc @ arith_seq s strd n
             \<and> (\<forall>x \<in> set (arith_seq s strd n). x <s e)
             \<and> \<not> (s + word_of_nat n * strd <s e)", OF _ assms])
  fix loop :: "i32 \<Rightarrow> i32 \<Rightarrow> i32 \<Rightarrow> i32 list \<Rightarrow> i32 list option"
    and s e strd :: i32 and acc vf :: "i32 list"
  assume IH: "\<And>s e strd acc vf. loop s e strd acc = Some vf \<Longrightarrow>
           \<exists>n. vf = acc @ arith_seq s strd n
             \<and> (\<forall>x \<in> set (arith_seq s strd n). x <s e)
             \<and> \<not> (s + word_of_nat n * strd <s e)"
    and eq: "(if s <s e then loop (s + strd) e strd (acc @ [s]) else Some acc) = Some vf"
  show "\<exists>n. vf = acc @ arith_seq s strd n
             \<and> (\<forall>x \<in> set (arith_seq s strd n). x <s e)
             \<and> \<not> (s + word_of_nat n * strd <s e)"
  proof (cases "s <s e")
    case True
    with eq have "loop (s + strd) e strd (acc @ [s]) = Some vf" by simp
    from IH [OF this] obtain n where
      n: "vf = (acc @ [s]) @ arith_seq (s + strd) strd n"
         "\<forall>x \<in> set (arith_seq (s + strd) strd n). x <s e"
         "\<not> (s + strd + word_of_nat n * strd <s e)"
      by blast
    have "vf = acc @ arith_seq s strd (Suc n)"
      using n(1) by (simp add: arith_seq_Suc)
    moreover have "\<forall>x \<in> set (arith_seq s strd (Suc n)). x <s e"
      using n(2) True by (simp add: arith_seq_Suc)
    moreover have "\<not> (s + word_of_nat (Suc n) * strd <s e)"
      using n(3) by (simp add: algebra_simps)
    ultimately show ?thesis by blast
  next
    case False
    with eq have "vf = acc" by simp
    with False show ?thesis
      by (intro exI [of _ 0]) (simp add: arith_seq_0)
  qed
qed

lemma sint_add_stride:
  fixes s e strd :: i32
  assumes "s <s e" "0 <s strd" "sint e + sint strd \<le> 2 ^ 31"
  shows "sint (s + strd) = sint s + sint strd"
proof -
  have "sint s < sint e" "0 < sint strd"
    using assms by (simp_all add: word_sless_alt)
  then have "- (2 ^ 31) \<le> sint s + sint strd" "sint s + sint strd < 2 ^ 31"
    using assms(3) sint_i32_bounds [of s] by linarith+
  then show ?thesis
    by (simp add: sint_word_ariths signed_take_bit_int_eq_self)
qed

lemma strided_loop_terminates:
  fixes s e strd :: i32
  assumes "0 <s strd" "sint e + sint strd \<le> 2 ^ 31"
  shows "\<exists>vf. strided_loop s e strd acc = Some vf"
proof (induction "nat (sint e - sint s)" arbitrary: s acc rule: less_induct)
  case less
  show ?case
  proof (cases "s <s e")
    case True
    have step: "sint (s + strd) = sint s + sint strd"
      using True assms by (rule sint_add_stride)
    have "0 < sint strd" "sint s < sint e"
      using assms(1) True by (simp_all add: word_sless_alt)
    then have "nat (sint e - sint (s + strd)) < nat (sint e - sint s)"
      using step by linarith
    from less [OF this] obtain vf where "strided_loop (s + strd) e strd (acc @ [s]) = Some vf"
      by blast
    then show ?thesis
      using True by (subst strided_loop.simps) simp
  next
    case False
    then show ?thesis by (subst strided_loop.simps) simp
  qed
qed


lemma sint_word_of_nat_i32: "n < 2 ^ 31 \<Longrightarrow> sint (word_of_nat n :: i32) = int n"
proof -
  assume "n < 2 ^ 31"
  then have "int n < 2 ^ 31" by simp
  then have "sint (word_of_int (int n) :: i32) = int n"
    by (intro sint_word_of_int_i32) simp_all
  then show ?thesis by simp
qed

lemma gather_points_size_sint:
  "length (gather_points args) < 2 ^ 31
     \<Longrightarrow> sint (gather_points_size args) = int (length (gather_points args))"
  unfolding gather_points_size_def by (rule sint_word_of_nat_i32)

lemma gather_loop_eq:
  assumes "length (gather_points args) < 2 ^ 31" "0 \<le>s s"
  shows "gather_loop args s acc = Inr (acc @ drop (nat (sint s)) (gather_points args))"
  using assms
proof (induction args s acc rule: gather_loop.induct)
  case (1 args s acc)
  have size: "sint (gather_points_size args) = int (length (gather_points args))"
    using "1.prems"(1) by (rule gather_points_size_sint)
  have nonneg: "0 \<le> sint s" using "1.prems"(2) by (simp add: word_sle_eq)
  show ?case
  proof (cases "s <s gather_points_size args")
    case True
    then have lt: "nat (sint s) < length (gather_points args)"
      using size nonneg by (simp add: word_sless_alt)
    then have at: "gather_points_at args s = Inr (gather_points args ! nat (sint s))"
      using "1.prems"(2) by (simp add: gather_points_at_def vector_at_def)
    have succ: "sint (s + 1) = sint s + 1" using True by (rule sint_succ_below)
    then have "0 \<le>s s + 1" using nonneg by (simp add: word_sle_eq)
    from "1.IH" [OF True at "1.prems"(1) this]
    have "gather_loop args (s + 1) (acc @ [gather_points args ! nat (sint s)])
          = Inr ((acc @ [gather_points args ! nat (sint s)])
                 @ drop (nat (sint (s + 1))) (gather_points args))" .
    moreover have "nat (sint (s + 1)) = Suc (nat (sint s))"
      using succ nonneg by simp
    ultimately show ?thesis
      using True at lt by (subst gather_loop.simps) (simp add: Cons_nth_drop_Suc)
  next
    case False
    then have "length (gather_points args) \<le> nat (sint s)"
      using size nonneg by (simp add: word_sless_alt)
    with False show ?thesis by (subst gather_loop.simps) simp
  qed
qed

section \<open>Properties of the decode loop\<close>

lemma appended0_Nil: "appended0 v [] = v"
  by (simp add: appended0_def split: list.splits)

lemma push_back0_appended0:
  "push_back0 x (appended0 v xs) = Inr w \<Longrightarrow> w = appended0 v (xs @ [x])"
  by (auto simp: push_back0_def appended0_def split: list.splits)

lemma sint_word_of_nat_le: "sint (word_of_nat n :: i32) \<le> int n"
proof -
  have "sint (word_of_nat n :: i32) = signed_take_bit 31 (int n)"
    using sint_sbintrunc' [where 'a = 32, of "int n"] by simp
  also have "\<dots> \<le> int n"
    by (simp add: signed_take_bit_int_less_eq_self_iff)
  finally show ?thesis .
qed

lemma drain_step_kept:
  assumes inv: "kept_so_far valid_frames st0 st"
    and more: "valid_index st <s word_of_nat (length valid_frames)"
    and step: "drain_step ext valid_frames st = Inr (more_frames, st')"
  shows "kept_so_far valid_frames st0 st'"
proof -
  let ?k = "nat (sint (valid_index st))"
  have nonneg: "0 \<le> sint (valid_index st)" using inv by (simp add: kept_so_far_def)
  have lt: "?k < length valid_frames"
    using more nonneg sint_word_of_nat_le [of "length valid_frames"]
    by (simp add: word_sless_alt)
  have at: "vector_at valid_frames (valid_index st) = Inr (valid_frames ! ?k)"
    using lt nonneg by (simp add: vector_at_def word_sle_eq)
  have succ: "sint (valid_index st + 1) = sint (valid_index st) + 1"
    using more by (rule sint_succ_below)
  then have ksucc: "nat (sint (valid_index st + 1)) = Suc ?k" using nonneg by simp
  from inv obtain bufs where
    bufs: "output_buffers st = appended0 (output_buffers st0) bufs"
          "map frame_index bufs = take ?k valid_frames"
          "output_sizes st = appended0 (output_sizes st0)
                               (replicate (length bufs) (frame_size (evaluator st0)))"
    by (auto simp: kept_so_far_def)
  show ?thesis
  proof (cases "current_frame st = valid_frames ! ?k")
    case True
    obtain more' data d where g:
      "get_frame ext (frame_size (evaluator st)) (decoder (evaluator st)) = ((more', data), d)"
      by (metis prod.exhaust)
    from step True at g obtain obufs osizes where
      pb: "push_back0 \<lparr>frame_index = current_frame st, frame_data = data\<rparr> (output_buffers st)
             = Inr obufs"
      and ps: "push_back0 (frame_size (evaluator st)) (output_sizes st) = Inr osizes"
      and st': "st' = st\<lparr>evaluator := (evaluator st)\<lparr>decoder := d\<rparr>,
                         output_buffers := obufs, output_sizes := osizes,
                         valid_index := valid_index st + 1,
                         total_frames_used := total_frames_used st + 1,
                         current_frame := current_frame st + 1,
                         total_frames_decoded := total_frames_decoded st + 1\<rparr>"
      by (auto simp: drain_step_def split: sum.splits)
    have fs: "frame_size (evaluator st) = frame_size (evaluator st0)"
      using inv by (simp add: kept_so_far_def)
    let ?b = "\<lparr>frame_index = current_frame st, frame_data = data\<rparr>"
    have o1: "obufs = appended0 (output_buffers st0) (bufs @ [?b])"
      using pb unfolding bufs(1) by (rule push_back0_appended0)
    have o2: "osizes = appended0 (output_sizes st0)
                 (replicate (length (bufs @ [?b])) (frame_size (evaluator st0)))"
    proof -
      have "osizes = appended0 (output_sizes st0)
              (replicate (length bufs) (frame_size (evaluator st0)) @ [frame_size (evaluator st0)])"
        using ps unfolding bufs(3) fs by (rule push_back0_appended0)
      then show ?thesis by (simp add: replicate_append_same)
    qed
    have o3: "map frame_index (bufs @ [?b]) = take (Suc ?k) valid_frames"
      using bufs(2) True lt by (simp add: take_Suc_conv_app_nth)
    have "\<exists>bs. obufs = appended0 (output_buffers st0) bs
            \<and> map frame_index bs = take (Suc ?k) valid_frames
            \<and> osizes = appended0 (output_sizes st0)
                    (replicate (length bs) (frame_size (evaluator st0)))"
      using o1 o2 o3 by blast
    then show ?thesis
      using inv lt succ ksucc nonneg unfolding st' kept_so_far_def by simp
  next
    case False
    obtain more' d where g: "discard_frame ext (decoder (evaluator st)) = (more', d)"
      by (metis prod.exhaust)
    from step False at g have
      st': "st' = st\<lparr>evaluator := (evaluator st)\<lparr>decoder := d\<rparr>,
                     current_frame := current_frame st + 1,
                     total_frames_decoded := total_frames_decoded st + 1\<rparr>"
      by (auto simp: drain_step_def)
    show ?thesis
      using inv unfolding st' kept_so_far_def by auto
  qed
qed


lemma drain_loop_invariant:
  assumes run: "drain_loop ext valid_frames tot more_frames st = Some (Inr st')"
    and init: "I st"
    and step: "\<And>st more_frames' st1. I st \<Longrightarrow> valid_index st <s tot
                 \<Longrightarrow> drain_step ext valid_frames st = Inr (more_frames', st1) \<Longrightarrow> I st1"
  shows "I st'"
proof -
  have "\<forall>st'. r = Inr st' \<longrightarrow> ext' = ext \<longrightarrow> vf' = valid_frames \<longrightarrow> tot1 = tot
          \<longrightarrow> I st \<longrightarrow> I st'"
    if "drain_loop ext' vf' tot1 more_frames st = Some r" for ext' vf' tot1 r
  proof (rule drain_loop.raw_induct
      [where P = "\<lambda>ext' vf' tot1 more_frames st r.
          \<forall>st'. r = Inr st' \<longrightarrow> ext' = ext \<longrightarrow> vf' = valid_frames \<longrightarrow> tot1 = tot
            \<longrightarrow> I st \<longrightarrow> I st'", OF _ that])
    fix loop :: "'a externals \<Rightarrow> i32 list \<Rightarrow> i32 \<Rightarrow> bool \<Rightarrow> 'a frame_state
                   \<Rightarrow> (error + 'a frame_state) option"
      and ext' vf' tot1 more_frames st r
    assume IH: "\<And>ext' vf' tot1 more_frames st r.
        loop ext' vf' tot1 more_frames st = Some r \<Longrightarrow>
          \<forall>st'. r = Inr st' \<longrightarrow> ext' = ext \<longrightarrow> vf' = valid_frames \<longrightarrow> tot1 = tot
            \<longrightarrow> I st \<longrightarrow> I st'"
      and eq: "(if more_frames \<and> valid_index st <s tot1 then
                  (case drain_step ext' vf' st of
                     Inl err \<Rightarrow> Some (Inl err)
                   | Inr (more_frames', st') \<Rightarrow> loop ext' vf' tot1 more_frames' st')
                else Some (Inr st)) = Some r"
    show "\<forall>st'. r = Inr st' \<longrightarrow> ext' = ext \<longrightarrow> vf' = valid_frames \<longrightarrow> tot1 = tot
            \<longrightarrow> I st \<longrightarrow> I st'"
    proof (intro allI impI)
      fix st'
      assume r: "r = Inr st'" and same: "ext' = ext" "vf' = valid_frames" "tot1 = tot"
        and inv: "I st"
      show "I st'"
      proof (cases "more_frames \<and> valid_index st <s tot1")
        case True
        then have eq1: "(case drain_step ext' vf' st of
                     Inl err \<Rightarrow> Some (Inl err)
                   | Inr (more_frames', st') \<Rightarrow> loop ext' vf' tot1 more_frames' st') = Some r"
          using eq by simp
        show ?thesis
        proof (cases "drain_step ext' vf' st")
          case (Inl err)
          with eq1 r show ?thesis by simp
        next
          case (Inr p)
          obtain more_frames' st1 where p: "p = (more_frames', st1)" by (cases p)
          have call: "loop ext' vf' tot1 more_frames' st1 = Some r"
            using eq1 Inr p by simp
          have "drain_step ext valid_frames st = Inr (more_frames', st1)"
            using Inr p same by simp
          moreover have "valid_index st <s tot" using True same by simp
          ultimately have "I st1" using inv step by blast
          moreover note IH [OF call, rule_format, OF r same]
          ultimately show ?thesis by simp
        qed
      next
        case False
        with eq r inv show ?thesis by simp
      qed
    qed
  qed
  then show ?thesis using run init by blast
qed

lemma decode_loop_invariant:
  assumes run: "decode_loop ext valid_frames tot encoded_buffer encoded_buffer_size st
                  = Some (Inr st')"
    and init: "I st"
    and step: "\<And>st st1. I st \<Longrightarrow> valid_index st <s tot
                 \<Longrightarrow> decode_iteration ext valid_frames tot encoded_buffer
                       encoded_buffer_size st = Some (Inr st1) \<Longrightarrow> I st1"
  shows "I st' \<and> \<not> valid_index st' <s tot"
proof -
  have "\<forall>st'. r = Inr st' \<longrightarrow> ext' = ext \<longrightarrow> vf' = valid_frames \<longrightarrow> tot1 = tot
          \<longrightarrow> buf' = encoded_buffer \<longrightarrow> size' = encoded_buffer_size
          \<longrightarrow> I st \<longrightarrow> I st' \<and> \<not> valid_index st' <s tot"
    if "decode_loop ext' vf' tot1 buf' size' st = Some r" for ext' vf' tot1 buf' size' r
  proof (rule decode_loop.raw_induct
      [where P = "\<lambda>ext' vf' tot1 buf' size' st r.
          \<forall>st'. r = Inr st' \<longrightarrow> ext' = ext \<longrightarrow> vf' = valid_frames \<longrightarrow> tot1 = tot
            \<longrightarrow> buf' = encoded_buffer \<longrightarrow> size' = encoded_buffer_size
            \<longrightarrow> I st \<longrightarrow> I st' \<and> \<not> valid_index st' <s tot", OF _ that])
    fix loop :: "'a externals \<Rightarrow> i32 list \<Rightarrow> i32 \<Rightarrow> u8 list \<Rightarrow> size_t \<Rightarrow> 'a frame_state
                   \<Rightarrow> (error + 'a frame_state) option"
      and ext' vf' tot1 buf' size' st r
    assume IH: "\<And>ext' vf' tot1 buf' size' st r.
        loop ext' vf' tot1 buf' size' st = Some r \<Longrightarrow>
          \<forall>st'. r = Inr st' \<longrightarrow> ext' = ext \<longrightarrow> vf' = valid_frames \<longrightarrow> tot1 = tot
            \<longrightarrow> buf' = encoded_buffer \<longrightarrow> size' = encoded_buffer_size
            \<longrightarrow> I st \<longrightarrow> I st' \<and> \<not> valid_index st' <s tot"
      and eq: "(if valid_index st <s tot1 then
                  (case decode_iteration ext' vf' tot1 buf' size' st of
                     None \<Rightarrow> None
                   | Some (Inl err) \<Rightarrow> Some (Inl err)
                   | Some (Inr st') \<Rightarrow> loop ext' vf' tot1 buf' size' st')
                else Some (Inr st)) = Some r"
    show "\<forall>st'. r = Inr st' \<longrightarrow> ext' = ext \<longrightarrow> vf' = valid_frames \<longrightarrow> tot1 = tot
            \<longrightarrow> buf' = encoded_buffer \<longrightarrow> size' = encoded_buffer_size
            \<longrightarrow> I st \<longrightarrow> I st' \<and> \<not> valid_index st' <s tot"
    proof (intro allI impI)
      fix st'
      assume r: "r = Inr st'" and same: "ext' = ext" "vf' = valid_frames" "tot1 = tot"
        "buf' = encoded_buffer" "size' = encoded_buffer_size"
        and inv: "I st"
      show "I st' \<and> \<not> valid_index st' <s tot"
      proof (cases "valid_index st <s tot1")
        case True
        then have eq1: "(case decode_iteration ext' vf' tot1 buf' size' st of
                     None \<Rightarrow> None
                   | Some (Inl err) \<Rightarrow> Some (Inl err)
                   | Some (Inr st') \<Rightarrow> loop ext' vf' tot1 buf' size' st') = Some r"
          using eq by simp
        show ?thesis
        proof (cases "decode_iteration ext' vf' tot1 buf' size' st")
          case None
          with eq1 show ?thesis by simp
        next
          case (Some res)
          show ?thesis
          proof (cases res)
            case (Inl err)
            with eq1 Some r show ?thesis by simp
          next
            case (Inr st1)
            have call: "loop ext' vf' tot1 buf' size' st1 = Some r"
              using eq1 Some Inr by simp
            have "decode_iteration ext valid_frames tot encoded_buffer encoded_buffer_size st
                    = Some (Inr st1)"
              using Some Inr same by simp
            moreover have "valid_index st <s tot" using True same by simp
            ultimately have "I st1" using inv step by blast
            moreover note IH [OF call, rule_format, OF r same]
            ultimately show ?thesis by simp
          qed
        qed
      next
        case False
        with eq r inv same show ?thesis by simp
      qed
    qed
  qed
  then show ?thesis using run init by blast
qed

lemma discard_loop_invariant:
  assumes run: "discard_loop ext st = Some st'"
    and init: "I st"
    and step: "\<And>st d. I st \<Longrightarrow> I (st\<lparr>evaluator := (evaluator st)\<lparr>decoder := d\<rparr>\<rparr>)"
    and count: "\<And>st. I st \<Longrightarrow> I (st\<lparr>total_frames_decoded := total_frames_decoded st + 1\<rparr>)"
  shows "I st'"
proof -
  have "ext' = ext \<longrightarrow> I st \<longrightarrow> I st'" if "discard_loop ext' st = Some st'" for ext'
  proof (rule discard_loop.raw_induct
      [where P = "\<lambda>ext' st st'. ext' = ext \<longrightarrow> I st \<longrightarrow> I st'", OF _ that])
    fix loop :: "'a externals \<Rightarrow> 'a frame_state \<Rightarrow> 'a frame_state option"
      and ext' st st'
    assume IH: "\<And>ext' st st'. loop ext' st = Some st' \<Longrightarrow> ext' = ext \<longrightarrow> I st \<longrightarrow> I st'"
      and eq: "(case discard_frame ext' (decoder (evaluator st)) of
                  (had_frame, d) \<Rightarrow>
                    (let st' = st\<lparr>evaluator := (evaluator st)\<lparr>decoder := d\<rparr>\<rparr>
                     in if had_frame
                        then loop ext' (st'\<lparr>total_frames_decoded := total_frames_decoded st' + 1\<rparr>)
                        else Some st')) = Some st'"
    show "ext' = ext \<longrightarrow> I st \<longrightarrow> I st'"
    proof (intro impI)
      assume same: "ext' = ext" and inv: "I st"
      obtain had_frame d where g: "discard_frame ext' (decoder (evaluator st)) = (had_frame, d)"
        by (metis prod.exhaust)
      let ?st1 = "st\<lparr>evaluator := (evaluator st)\<lparr>decoder := d\<rparr>\<rparr>"
      have i1: "I ?st1" using inv by (rule step)
      show "I st'"
      proof (cases had_frame)
        case True
        with eq g have
          call: "loop ext' (?st1\<lparr>total_frames_decoded := total_frames_decoded ?st1 + 1\<rparr>) = Some st'"
          by (simp add: Let_def)
        have "I (?st1\<lparr>total_frames_decoded := total_frames_decoded ?st1 + 1\<rparr>)"
          using i1 by (rule count)
        with IH [OF call] same show ?thesis by blast
      next
        case False
        with eq g i1 show ?thesis by (simp add: Let_def)
      qed
    qed
  qed
  with run init show ?thesis by blast
qed

lemma kept_so_far_refl:
  "valid_index st = 0 \<Longrightarrow> kept_so_far valid_frames st st"
  by (auto simp: kept_so_far_def appended0_Nil intro: exI [of _ "[]"])

lemma kept_so_far_decoder:
  "kept_so_far valid_frames st0 st
     \<Longrightarrow> kept_so_far valid_frames st0 (st\<lparr>evaluator := (evaluator st)\<lparr>decoder := d\<rparr>\<rparr>)"
  by (simp add: kept_so_far_def)

lemma kept_so_far_discontinuity:
  "kept_so_far valid_frames st0 st
     \<Longrightarrow> kept_so_far valid_frames st0 (st\<lparr>evaluator := (evaluator st)\<lparr>discontinuity := b\<rparr>\<rparr>)"
  by (simp add: kept_so_far_def)

lemma kept_so_far_decoded:
  "kept_so_far valid_frames st0 st
     \<Longrightarrow> kept_so_far valid_frames st0 (st\<lparr>total_frames_decoded := total_frames_decoded st + 1\<rparr>)"
  by (auto simp: kept_so_far_def)

lemma decode_iteration_kept:
  assumes inv: "kept_so_far valid_frames st0 st"
    and run: "decode_iteration ext valid_frames (word_of_nat (length valid_frames))
                encoded_buffer encoded_buffer_size st = Some (Inr st')"
  shows "kept_so_far valid_frames st0 st'"
proof (cases "next_packet encoded_buffer encoded_buffer_size (encoded_buffer_offset st)")
  case (Inl err)
  with run show ?thesis by (simp add: decode_iteration_def)
next
  case (Inr p)
  obtain n pkt off where p: "p = (n, pkt, off)" by (cases p)
  obtain new_frames d where
    f: "feed ext pkt n (discontinuity (evaluator st)) (decoder (evaluator st)) = (new_frames, d)"
    by (metis prod.exhaust)
  let ?st1 = "st\<lparr>encoded_buffer_offset := off, evaluator := (evaluator st)\<lparr>decoder := d\<rparr>\<rparr>"
  have inv1: "kept_so_far valid_frames st0 ?st1"
    using inv by (simp add: kept_so_far_def)
  from run Inr p f obtain st2 where
    drained: "(if new_frames
               then drain_loop ext valid_frames (word_of_nat (length valid_frames)) True ?st1
               else Some (Inr ?st1)) = Some (Inr st2)"
    and st': "st' = st2\<lparr>evaluator := (evaluator st2)\<lparr>discontinuity := (n = 0)\<rparr>\<rparr>"
    by (auto simp: decode_iteration_def Let_def split: option.splits sum.splits)
  have "kept_so_far valid_frames st0 st2"
  proof (cases new_frames)
    case True
    with drained have
      "drain_loop ext valid_frames (word_of_nat (length valid_frames)) True ?st1 = Some (Inr st2)"
      by simp
    then show ?thesis
      using inv1
    proof (rule drain_loop_invariant)
      fix s more_frames' s1
      assume "kept_so_far valid_frames st0 s"
        "valid_index s <s word_of_nat (length valid_frames)"
        "drain_step ext valid_frames s = Inr (more_frames', s1)"
      then show "kept_so_far valid_frames st0 s1" by (rule drain_step_kept)
    qed
  next
    case False
    with drained inv1 show ?thesis by simp
  qed
  then show ?thesis unfolding st' by (rule kept_so_far_discontinuity)
qed

lemma decode_loop_kept:
  assumes run: "decode_loop ext valid_frames (word_of_nat (length valid_frames))
                  encoded_buffer encoded_buffer_size st = Some (Inr st')"
    and inv: "kept_so_far valid_frames st0 st"
  shows "kept_so_far valid_frames st0 st'
         \<and> \<not> valid_index st' <s word_of_nat (length valid_frames)"
  using run inv
proof (rule decode_loop_invariant)
  fix s s1
  assume "kept_so_far valid_frames st0 s"
    "decode_iteration ext valid_frames (word_of_nat (length valid_frames))
       encoded_buffer encoded_buffer_size s = Some (Inr s1)"
  then show "kept_so_far valid_frames st0 s1" by (rule decode_iteration_kept)
qed

lemma drain_decoder_kept:
  assumes run: "drain_decoder ext st = Some st'"
    and inv: "kept_so_far valid_frames st0 st"
  shows "kept_so_far valid_frames st0 st' \<and> valid_index st' = valid_index st"
proof -
  let ?I = "\<lambda>s. kept_so_far valid_frames st0 s \<and> valid_index s = valid_index st"
  let ?st1 = "st\<lparr>evaluator := (evaluator st)
                   \<lparr>decoder := wait_until_frames_copied ext (decoder (evaluator st))\<rparr>\<rparr>"
  have i1: "?I ?st1" using inv by (simp add: kept_so_far_decoder)
  show ?thesis
  proof (cases "0 <s decoded_frames_buffered ext (decoder (evaluator ?st1))")
    case True
    with run have "discard_loop ext ?st1 = Some st'"
      by (simp add: drain_decoder_def Let_def)
    then show ?thesis
      using i1
    proof (rule discard_loop_invariant)
      fix s d
      assume "?I s"
      then show "?I (s\<lparr>evaluator := (evaluator s)\<lparr>decoder := d\<rparr>\<rparr>)"
        by (simp add: kept_so_far_decoder)
    next
      fix s
      assume "?I s"
      then show "?I (s\<lparr>total_frames_decoded := total_frames_decoded s + 1\<rparr>)"
        by (simp add: kept_so_far_decoded)
    qed
  next
    case False
    with run have "st' = ?st1" by (simp add: drain_decoder_def Let_def)
    with i1 show ?thesis by simp
  qed
qed


lemma compute_valid_frames_flags:
  assumes "compute_valid_frames ev args = Some (Inr (valid_frames, ev'))"
  shows "needs_warmup ev' = needs_warmup ev
         \<and> discontinuity ev'
             = (discontinuity ev \<or> sampling args = DecodeArgs_Gather
                \<or> sampling args = DecodeArgs_SequenceGather)"
  using assms
  by (cases "sampling args")
     (auto simp: compute_valid_frames_def Let_def
        split: if_splits option.splits sum.splits list.splits)

lemma decode_args_kept:
  assumes run: "decode_args ext args encoded_buffer encoded_buffer_size st = Some (Inr st')"
  shows "\<exists>valid_frames ev st0.
           compute_valid_frames (evaluator st) args = Some (Inr (valid_frames, ev))
           \<and> st0 = st\<lparr>evaluator := ev, encoded_buffer_offset := 0,
                        current_frame := start_keyframe args, valid_index := 0\<rparr>
           \<and> kept_so_far valid_frames st0 (st'\<lparr>evaluator := (evaluator st')
                                                   \<lparr>needs_warmup := needs_warmup ev\<rparr>\<rparr>)
           \<and> \<not> valid_index st' <s word_of_nat (length valid_frames)
           \<and> \<not> needs_warmup (evaluator st')"
proof -
  from run obtain valid_frames ev where
    plan: "compute_valid_frames (evaluator st) args = Some (Inr (valid_frames, ev))"
    by (auto simp: decode_args_def split: option.splits sum.splits)
  let ?st0 = "st\<lparr>evaluator := ev, encoded_buffer_offset := 0,
                  current_frame := start_keyframe args, valid_index := 0\<rparr>"
  from run plan obtain st1 st2 where
    loop: "decode_loop ext valid_frames (word_of_nat (length valid_frames))
             encoded_buffer encoded_buffer_size ?st0 = Some (Inr st1)"
    and drain: "drain_decoder ext st1 = Some st2"
    and st': "st' = st2\<lparr>evaluator := (evaluator st2)\<lparr>needs_warmup := False\<rparr>\<rparr>"
    by (auto simp: decode_args_def Let_def split: option.splits sum.splits)
  have "kept_so_far valid_frames ?st0 ?st0" by (rule kept_so_far_refl) simp
  with loop have k1: "kept_so_far valid_frames ?st0 st1"
    and done1: "\<not> valid_index st1 <s word_of_nat (length valid_frames)"
    using decode_loop_kept by blast+
  from drain k1 have k2: "kept_so_far valid_frames ?st0 st2"
    and v2: "valid_index st2 = valid_index st1"
    using drain_decoder_kept by blast+
  have "kept_so_far valid_frames ?st0
          (st'\<lparr>evaluator := (evaluator st')\<lparr>needs_warmup := needs_warmup ev\<rparr>\<rparr>)"
    using k2 unfolding st' by (simp add: kept_so_far_def)
  moreover have "\<not> valid_index st' <s word_of_nat (length valid_frames)"
    using done1 v2 unfolding st' by simp
  moreover have "\<not> needs_warmup (evaluator st')" unfolding st' by simp
  ultimately show ?thesis using plan by blast
qed



lemma decode_args_warmed:
  "decode_args ext args encoded_buffer encoded_buffer_size st = Some (Inr st')
     \<Longrightarrow> \<not> needs_warmup (evaluator st')"
  using decode_args_kept by blast

lemma evaluate_input_decode_args:
  assumes "evaluate_input ext input_buffers input_sizes i st = Some (Inr st')"
  shows "\<exists>args encoded_buffer encoded_buffer_size.
           decode_args ext args encoded_buffer encoded_buffer_size st = Some (Inr st')"
  using assms by (auto simp: evaluate_input_def Let_def split: if_splits)

lemma inputs_loop_invariant:
  assumes run: "inputs_loop ext input_buffers input_sizes num_inputs i st = Some (Inr st')"
    and init: "I st"
    and step: "\<And>j s s1. I s \<Longrightarrow> j < num_inputs
                 \<Longrightarrow> evaluate_input ext input_buffers input_sizes j s = Some (Inr s1)
                 \<Longrightarrow> I s1"
  shows "I st'"
  using run init step
proof (induction ext input_buffers input_sizes num_inputs i st rule: inputs_loop.induct)
  case (1 ext input_buffers input_sizes num_inputs i st)
  show ?case
  proof (cases "i < num_inputs")
    case True
    from "1.prems"(1) True obtain s1 where
      one: "evaluate_input ext input_buffers input_sizes i st = Some (Inr s1)"
      and rest: "inputs_loop ext input_buffers input_sizes num_inputs (i + 1) s1 = Some (Inr st')"
      by (subst (asm) inputs_loop.simps) (auto split: option.splits sum.splits)
    have "I s1" using "1.prems"(2) True one by (rule "1.prems"(3))
    with "1.IH" [OF True one _ rest] "1.prems"(3) show ?thesis by blast
  next
    case False
    with "1.prems" show ?thesis by (subst (asm) inputs_loop.simps) simp
  qed
qed

lemma inputs_loop_warmed:
  assumes run: "inputs_loop ext input_buffers input_sizes num_inputs i st = Some (Inr st')"
    and some: "i < num_inputs \<or> \<not> needs_warmup (evaluator st)"
  shows "\<not> needs_warmup (evaluator st')"
proof (cases "i < num_inputs")
  case True
  from run True obtain s1 where
    one: "evaluate_input ext input_buffers input_sizes i st = Some (Inr s1)"
    and rest: "inputs_loop ext input_buffers input_sizes num_inputs (i + 1) s1 = Some (Inr st')"
    by (subst (asm) inputs_loop.simps) (auto split: option.splits sum.splits)
  have "\<not> needs_warmup (evaluator s1)"
    using evaluate_input_decode_args [OF one] decode_args_warmed by blast
  with rest show ?thesis
  proof (rule inputs_loop_invariant)
    fix j s s2
    assume "evaluate_input ext input_buffers input_sizes j s = Some (Inr s2)"
    then show "\<not> needs_warmup (evaluator s2)"
      using evaluate_input_decode_args decode_args_warmed by blast
  qed
next
  case False
  with run some show ?thesis by (subst (asm) inputs_loop.simps) simp
qed


lemma gather_loop_points:
  "gather_points args' = gather_points args
     \<Longrightarrow> gather_loop args' s acc = gather_loop args s acc"
proof (induction args s acc rule: gather_loop.induct)
  case (1 args s acc)
  have size: "gather_points_size args' = gather_points_size args"
    and at: "gather_points_at args' s = gather_points_at args s"
    using "1.prems" by (simp_all add: gather_points_size_def gather_points_at_def)
  show ?case
  proof (cases "s <s gather_points_size args")
    case True
    show ?thesis
    proof (cases "gather_points_at args s")
      case (Inl err)
      with True size at show ?thesis
        by (subst gather_loop.simps, subst (2) gather_loop.simps) simp
    next
      case (Inr p)
      with True size at "1.IH" [OF True Inr "1.prems"] show ?thesis
        by (subst gather_loop.simps, subst (2) gather_loop.simps) simp
    qed
  next
    case False
    with size show ?thesis
      by (subst gather_loop.simps, subst (2) gather_loop.simps) simp
  qed
qed

lemma compute_valid_frames_cold:
  assumes "needs_warmup ev"
  shows "compute_valid_frames ev args = compute_valid_frames ev (args\<lparr>warmup_count := 0\<rparr>)"
proof -
  have "gather_loop (args\<lparr>warmup_count := 0\<rparr>) 0 [] = gather_loop args 0 []"
    by (rule gather_loop_points) simp
  with assms show ?thesis
    by (cases "sampling args")
       (simp_all add: compute_valid_frames_def gather_sequences_size_def Let_def
          split: list.splits)
qed

lemma evaluate_no_inputs:
  assumes "input_buffers = [] \<or> input_buffers ! 0 = []"
  shows "evaluate ext ev input_buffers input_sizes out_buffers out_sizes =
           Some (Inr \<lparr>evaluator = ev, output_buffers = out_buffers, output_sizes = out_sizes,
                      total_frames_decoded = 0, total_frames_used = 0,
                      encoded_buffer_offset = 0, current_frame = 0, valid_index = 0\<rparr>)"
  using assms by (auto simp: evaluate_def inputs_loop.simps)

lemma drain_step_needs_warmup:
  "drain_step ext valid_frames st = Inr (more_frames, st')
     \<Longrightarrow> needs_warmup (evaluator st') = needs_warmup (evaluator st)"
  by (auto simp: drain_step_def split: sum.splits prod.splits if_splits)

lemma decode_iteration_flags:
  assumes run: "decode_iteration ext valid_frames tot encoded_buffer encoded_buffer_size st
                  = Some (Inr st')"
  shows "(\<exists>n pkt off. next_packet encoded_buffer encoded_buffer_size (encoded_buffer_offset st)
                          = Inr (n, pkt, off)
             \<and> discontinuity (evaluator st') = (n = 0))
         \<and> needs_warmup (evaluator st') = needs_warmup (evaluator st)"
proof (cases "next_packet encoded_buffer encoded_buffer_size (encoded_buffer_offset st)")
  case (Inl err)
  with run show ?thesis by (simp add: decode_iteration_def)
next
  case (Inr p)
  obtain n pkt off where p: "p = (n, pkt, off)" by (cases p)
  obtain new_frames d where
    f: "feed ext pkt n (discontinuity (evaluator st)) (decoder (evaluator st)) = (new_frames, d)"
    by (metis prod.exhaust)
  let ?st1 = "st\<lparr>encoded_buffer_offset := off, evaluator := (evaluator st)\<lparr>decoder := d\<rparr>\<rparr>"
  from run Inr p f obtain st2 where
    drained: "(if new_frames then drain_loop ext valid_frames tot True ?st1
               else Some (Inr ?st1)) = Some (Inr st2)"
    and st': "st' = st2\<lparr>evaluator := (evaluator st2)\<lparr>discontinuity := (n = 0)\<rparr>\<rparr>"
    by (auto simp: decode_iteration_def Let_def split: option.splits sum.splits)
  have "needs_warmup (evaluator st2) = needs_warmup (evaluator st)"
  proof (cases new_frames)
    case True
    with drained have "drain_loop ext valid_frames tot True ?st1 = Some (Inr st2)" by simp
    moreover have "needs_warmup (evaluator ?st1) = needs_warmup (evaluator st)" by simp
    ultimately show ?thesis
    proof (rule drain_loop_invariant)
      fix s more_frames' s1
      assume "needs_warmup (evaluator s) = needs_warmup (evaluator st)"
        "drain_step ext valid_frames s = Inr (more_frames', s1)"
      then show "needs_warmup (evaluator s1) = needs_warmup (evaluator st)"
        using drain_step_needs_warmup by metis
    qed
  next
    case False
    with drained show ?thesis by auto
  qed
  with Inr p st' show ?thesis by simp
qed

lemma decode_loop_needs_warmup:
  assumes "decode_loop ext valid_frames tot encoded_buffer encoded_buffer_size st
             = Some (Inr st')"
  shows "needs_warmup (evaluator st') = needs_warmup (evaluator st)"
proof -
  have "needs_warmup (evaluator st') = needs_warmup (evaluator st)
        \<and> \<not> valid_index st' <s tot"
    using assms
  proof (rule decode_loop_invariant)
    show "needs_warmup (evaluator st) = needs_warmup (evaluator st)" by simp
  next
    fix s s1 :: "'a frame_state"
    assume "needs_warmup (evaluator s) = needs_warmup (evaluator st)"
      and "decode_iteration ext valid_frames tot encoded_buffer encoded_buffer_size s
             = Some (Inr s1)"
    then show "needs_warmup (evaluator s1) = needs_warmup (evaluator st)"
      using decode_iteration_flags by metis
  qed
  then show ?thesis by simp
qed






section \<open>Runs of the test decoder\<close>

lemmas test_run_simps =
  decode_args_def compute_valid_frames_def interval_loop.simps gather_loop.simps
  gather_points_size_def gather_points_at_def
  decode_loop.simps decode_iteration_def next_packet_def
  read_i32_def three_packets_def word_rcat_def test_externals_def test_state_def
  reset_def test_evaluator_def DecoderEvaluator_new_def drain_loop.simps drain_step_def
  vector_at_def push_back0_def drain_decoder_def all_args_def gather_args_def Let_def
  word_sless_alt word_sle_eq

lemma test_run_all:
  "decode_args test_externals (all_args 0 3 0) three_packets 15
     (test_state (reset test_evaluator)) = Some (Inr three_frames_state)"
  by (simp add: test_run_simps three_frames_state_def)

lemma test_run_gather:
  "decode_args test_externals (gather_args [0, 1] 0) three_packets 10
     (test_state test_evaluator) = Some (Inr two_frames_state)"
  by (simp add: test_run_simps two_frames_state_def)

lemma test_run_evaluate:
  "evaluate test_externals (reset test_evaluator) one_input one_input_sizes [[]] [[]]
   = Some (Inr three_frames_state)"
  by (simp add: evaluate_def inputs_loop.simps evaluate_input_def one_input_def
      one_input_sizes_def test_deserialize_def test_run_simps three_frames_state_def)

lemma test_run_iteration:
  "decode_iteration test_externals [0, 1, 2] 3 three_packets 15
     (test_state (reset test_evaluator)) = Some (Inr first_frame_state)"
  by (simp add: test_run_simps first_frame_state_def)

lemma test_run_loop:
  "decode_loop test_externals [0, 1, 2] 3 three_packets 15 (test_state (reset test_evaluator))
     = Some (Inr warming_state)"
  by (simp add: test_run_simps three_frames_state_def warming_state_def)

lemma test_plan_all:
  "compute_valid_frames (evaluator (test_state (reset test_evaluator))) (all_args 0 3 0)
     = Some (Inr ([0, 1, 2], reset test_evaluator))"
  by (simp add: compute_valid_frames_def all_args_def test_state_def reset_def
      interval_loop.simps word_sless_alt)


section \<open>The claims\<close>

subsection \<open>C1: the warmup flag of a new engine\<close>

text \<open>
  Claim C1, as amended. The constructor sets \<open>needs_warmup\<close> to false, so a new engine
  skips the warmup frames on its first call. The flag is true after \<^verbatim>\<open>reset()\<close>;
  while it is true the warmup count does not enter the plan (the plan is the one of
  the same descriptor with \<open>warmup_count = 0\<close>), and an All plan computed right after
  \<^verbatim>\<open>reset()\<close> is \<open>[start, end)\<close>. The decode loop leaves the flag as it was, so it
  stays true until the decode of the first input has returned.
\<close>

theorem warmup_after_reset:
  "\<not> needs_warmup (DecoderEvaluator_new dt dev fs d)
   \<and> needs_warmup (reset ev)
   \<and> (needs_warmup ev \<longrightarrow>
        compute_valid_frames ev args = compute_valid_frames ev (args\<lparr>warmup_count := 0\<rparr>))
   \<and> (sampling args = DecodeArgs_All \<longrightarrow>
        compute_valid_frames (reset ev) args =
          Some (Inr (frame_range (interval_start (interval args)) (interval_end (interval args)),
                     reset ev)))
   \<and> (decode_loop ext valid_frames tot encoded_buffer encoded_buffer_size st = Some (Inr st')
        \<longrightarrow> needs_warmup (evaluator st') = needs_warmup (evaluator st))"
proof (intro conjI impI)
  show "\<not> needs_warmup (DecoderEvaluator_new dt dev fs d)"
    by (simp add: DecoderEvaluator_new_def)
  show "needs_warmup (reset ev)"
    by (simp add: reset_def)
  show "compute_valid_frames ev args = compute_valid_frames ev (args\<lparr>warmup_count := 0\<rparr>)"
    if "needs_warmup ev"
    using that by (rule compute_valid_frames_cold)
  show "compute_valid_frames (reset ev) args =
          Some (Inr (frame_range (interval_start (interval args)) (interval_end (interval args)),
                     reset ev))"
    if "sampling args = DecodeArgs_All"
    using that by (simp add: compute_valid_frames_def reset_def interval_loop_eq)
  show "needs_warmup (evaluator st') = needs_warmup (evaluator st)"
    if "decode_loop ext valid_frames tot encoded_buffer encoded_buffer_size st = Some (Inr st')"
    using that by (rule decode_loop_needs_warmup)
qed

theorem warmup_after_reset_witness:
  "needs_warmup (reset test_evaluator)
   \<and> compute_valid_frames (reset test_evaluator) (all_args 0 10 2)
       = compute_valid_frames (reset test_evaluator) (all_args 0 10 0)
   \<and> compute_valid_frames (reset test_evaluator) (all_args 0 10 2)
       = Some (Inr ([0, 1, 2, 3, 4, 5, 6, 7, 8, 9], reset test_evaluator))
   \<and> decode_loop test_externals [0, 1, 2] 3 three_packets 15
        (test_state (reset test_evaluator)) = Some (Inr warming_state)
   \<and> needs_warmup (evaluator warming_state)"
proof -
  note fact = warmup_after_reset [of CPU 0 12 "\<lparr>buffered = 0, fed = []\<rparr>"
      "reset test_evaluator" "all_args 0 10 2" test_externals "[0, 1, 2]" 3 three_packets 15
      "test_state (reset test_evaluator)" warming_state]
  have cold: "needs_warmup (reset test_evaluator)"
    by (simp add: reset_def)
  have twice: "reset (reset test_evaluator) = reset test_evaluator"
    by (simp add: reset_def)
  have "compute_valid_frames (reset test_evaluator) (all_args 0 10 2)
        = compute_valid_frames (reset test_evaluator) ((all_args 0 10 2)\<lparr>warmup_count := 0\<rparr>)"
    using fact cold by blast
  moreover have "(all_args 0 10 2)\<lparr>warmup_count := 0\<rparr> = all_args 0 10 0"
    by (simp add: all_args_def)
  moreover have "sampling (all_args 0 10 2) = DecodeArgs_All"
    by (simp add: all_args_def)
  with fact have "compute_valid_frames (reset test_evaluator) (all_args 0 10 2)
        = Some (Inr (frame_range (interval_start (interval (all_args 0 10 2)))
                       (interval_end (interval (all_args 0 10 2))), reset test_evaluator))"
    unfolding twice by blast
  moreover have "frame_range (interval_start (interval (all_args 0 10 2)))
                   (interval_end (interval (all_args 0 10 2)))
                 = [0, 1, 2, 3, 4, 5, 6, 7, 8, 9]"
    by (simp add: all_args_def frame_range_def upto.simps)
  moreover from fact test_run_loop
  have "needs_warmup (evaluator warming_state)
          = needs_warmup (evaluator (test_state (reset test_evaluator)))"
    by blast
  then have "needs_warmup (evaluator warming_state)"
    by (simp add: test_state_def reset_def)
  ultimately show ?thesis using cold test_run_loop by simp
qed

text \<open>
  Claim C1 as stated fails: on a newly constructed engine \<open>needs_warmup\<close> is false, and
  the plan of its first call for \<open>{start = 0, end = 10, warmup_count = 2}\<close> starts at 2.
\<close>

theorem constructor_warmup_counterexample:
  "\<not> needs_warmup (DecoderEvaluator_new CPU 0 12 \<lparr>buffered = 0, fed = []\<rparr>)
   \<and> compute_valid_frames (DecoderEvaluator_new CPU 0 12 \<lparr>buffered = 0, fed = []\<rparr>)
         (all_args 0 10 2)
       = Some (Inr ([2, 3, 4, 5, 6, 7, 8, 9],
                    DecoderEvaluator_new CPU 0 12 \<lparr>buffered = 0, fed = []\<rparr>))"
  by (simp add: DecoderEvaluator_new_def compute_valid_frames_def all_args_def
      interval_loop_eq frame_range_def upto.simps)

subsection \<open>C2: the plan of All mode\<close>

text \<open>
  Claim C2. For an All descriptor \<open>{start, end, warmup_count}\<close> the frames to keep are
  exactly the indices \<open>[start, end)\<close> while \<open>needs_warmup\<close> is true and
  \<open>[start + warmup_count, end)\<close> once it is false, and the engine comes back unchanged,
  so All mode does not force a discontinuity.
\<close>

theorem all_mode_range:
  "sampling args = DecodeArgs_All \<Longrightarrow>
   compute_valid_frames ev args =
     Some (Inr (frame_range
                  (plan_start ev (interval_start (interval args)) (warmup_count args))
                  (interval_end (interval args)),
                ev))
   \<and> set (frame_range
              (plan_start ev (interval_start (interval args)) (warmup_count args))
              (interval_end (interval args)))
       = {x. plan_start ev (interval_start (interval args)) (warmup_count args) \<le>s x
             \<and> x <s interval_end (interval args)}
   \<and> sorted_wrt (<s)
         (frame_range
            (plan_start ev (interval_start (interval args)) (warmup_count args))
            (interval_end (interval args)))"
  by (simp add: compute_valid_frames_def interval_loop_eq plan_start_def Let_def
      set_frame_range sorted_frame_range)

text \<open>
  The example of the specification: \<open>{start = 0, end = 10, warmup_count = 2}\<close> gives
  \<open>[0..10)\<close> while \<open>needs_warmup\<close> is true and \<open>[2..10)\<close> once it is false.
\<close>

theorem all_mode_range_witness:
  "compute_valid_frames (reset test_evaluator) (all_args 0 10 2)
     = Some (Inr ([0, 1, 2, 3, 4, 5, 6, 7, 8, 9], reset test_evaluator))
   \<and> compute_valid_frames test_evaluator (all_args 0 10 2)
     = Some (Inr ([2, 3, 4, 5, 6, 7, 8, 9], test_evaluator))"
proof -
  have args: "sampling (all_args 0 10 2) = DecodeArgs_All"
    by (simp add: all_args_def)
  have cold: "frame_range (plan_start (reset test_evaluator)
                             (interval_start (interval (all_args 0 10 2)))
                             (warmup_count (all_args 0 10 2)))
                (interval_end (interval (all_args 0 10 2)))
              = [0, 1, 2, 3, 4, 5, 6, 7, 8, 9]"
    by (simp add: frame_range_def plan_start_def all_args_def reset_def upto.simps)
  have warm: "frame_range (plan_start test_evaluator
                             (interval_start (interval (all_args 0 10 2)))
                             (warmup_count (all_args 0 10 2)))
                (interval_end (interval (all_args 0 10 2)))
              = [2, 3, 4, 5, 6, 7, 8, 9]"
    by (simp add: frame_range_def plan_start_def all_args_def test_evaluator_def
        DecoderEvaluator_new_def upto.simps)
  from all_mode_range [OF args, of "reset test_evaluator"]
    all_mode_range [OF args, of test_evaluator]
  show ?thesis unfolding cold warm by blast
qed

subsection \<open>C3: the plan of Strided mode\<close>

text \<open>
  Claim C3, as amended. For a Strided descriptor, let \<open>s0\<close> be \<open>start\<close> while
  \<open>needs_warmup\<close> is true and \<open>start + warmup_count * stride\<close> once it is false. Whenever
  the plan loop returns, the frames to keep are the arithmetic sequence
  \<open>s0, s0 + stride, ...\<close> with every element below \<open>end\<close>, stopped at the first term
  that is not below \<open>end\<close>, and the engine is unchanged. The loop returns whenever
  \<open>stride \<ge> 1\<close> and \<open>end + stride \<le> 2^31\<close>.
\<close>

theorem strided_mode_sequence:
  fixes ev :: "'d DecoderEvaluator"
  assumes "sampling args = DecodeArgs_Strided"
    and s0: "s0 = plan_start ev (interval_start (interval args)) (warmup_count args * stride args)"
  shows "(\<forall>r. compute_valid_frames ev args = Some r \<longrightarrow>
            (\<exists>n. r = Inr (arith_seq s0 (stride args) n, ev)
               \<and> (\<forall>x \<in> set (arith_seq s0 (stride args) n). x <s interval_end (interval args))
               \<and> \<not> (s0 + word_of_nat n * stride args <s interval_end (interval args))))
       \<and> (0 <s stride args \<and> sint (interval_end (interval args)) + sint (stride args) \<le> 2 ^ 31
            \<longrightarrow> compute_valid_frames ev args \<noteq> None)"
proof (intro conjI allI impI)
  fix r
  assume "compute_valid_frames ev args = Some r"
  then obtain vf where loop: "strided_loop s0 (interval_end (interval args)) (stride args) [] = Some vf"
    and r: "r = Inr (vf, ev)"
    using assms(1) unfolding compute_valid_frames_def s0 plan_start_def
    by (auto simp: Let_def split: option.splits if_splits)
  from strided_loop_result [OF loop] r
  show "\<exists>n. r = Inr (arith_seq s0 (stride args) n, ev)
               \<and> (\<forall>x \<in> set (arith_seq s0 (stride args) n). x <s interval_end (interval args))
               \<and> \<not> (s0 + word_of_nat n * stride args <s interval_end (interval args))"
    by auto
next
  assume "0 <s stride args \<and> sint (interval_end (interval args)) + sint (stride args) \<le> 2 ^ 31"
  then obtain vf where "strided_loop s0 (interval_end (interval args)) (stride args) [] = Some vf"
    using strided_loop_terminates [of "stride args" "interval_end (interval args)" s0 "[]"]
    by blast
  then show "compute_valid_frames ev args \<noteq> None"
    using assms(1) unfolding compute_valid_frames_def s0 plan_start_def
    by (auto simp: Let_def split: option.splits if_splits)
qed

theorem strided_mode_sequence_witness:
  "sampling (strided_args 0 20 4 1) = DecodeArgs_Strided
   \<and> 0 <s stride (strided_args 0 20 4 1)
   \<and> sint (interval_end (interval (strided_args 0 20 4 1)))
         + sint (stride (strided_args 0 20 4 1)) \<le> 2 ^ 31
   \<and> compute_valid_frames test_evaluator (strided_args 0 20 4 1)
       = Some (Inr ([4, 8, 12, 16], test_evaluator))
   \<and> arith_seq 4 4 4 = [4, 8, 12, 16]"
proof -
  have args: "sampling (strided_args 0 20 4 1) = DecodeArgs_Strided"
    "0 <s stride (strided_args 0 20 4 1)"
    "sint (interval_end (interval (strided_args 0 20 4 1)))
       + sint (stride (strided_args 0 20 4 1)) \<le> 2 ^ 31"
    by (simp_all add: strided_args_def word_sless_alt)
  have s0: "plan_start test_evaluator (interval_start (interval (strided_args 0 20 4 1)))
              (warmup_count (strided_args 0 20 4 1) * stride (strided_args 0 20 4 1)) = 4"
    by (simp add: plan_start_def strided_args_def test_evaluator_def DecoderEvaluator_new_def)
  note fact = strided_mode_sequence [OF args(1) s0 [symmetric]]
  from fact args have "compute_valid_frames test_evaluator (strided_args 0 20 4 1) \<noteq> None"
    by blast
  then obtain r where r: "compute_valid_frames test_evaluator (strided_args 0 20 4 1) = Some r"
    by blast
  with fact obtain n where
    n: "r = Inr (arith_seq 4 (stride (strided_args 0 20 4 1)) n, test_evaluator)"
    by blast
  have run: "compute_valid_frames test_evaluator (strided_args 0 20 4 1)
               = Some (Inr ([4, 8, 12, 16], test_evaluator))"
    by (simp add: compute_valid_frames_def strided_args_def strided_loop.simps
        test_evaluator_def DecoderEvaluator_new_def)
  have "arith_seq 4 4 4 = [4, 8, 12, 16]"
    by (simp add: arith_seq_def upt_rec)
  with args run r n show ?thesis by simp
qed

text \<open>
  Claim C3 as stated fails for \<open>stride = 0\<close>: with \<open>{start = 0, end = 1, stride = 0}\<close> the
  loop \<^verbatim>\<open>for (; s < e; s += stride)\<close> never ends, and no plan is computed.
\<close>

theorem strided_zero_stride_counterexample:
  "compute_valid_frames test_evaluator (strided_args 0 1 0 0) = None"
proof -
  have "strided_loop 0 1 0 acc = None" for acc
  proof (cases "strided_loop 0 1 0 acc")
    case None
    then show ?thesis .
  next
    case (Some vf)
    have "(s :: i32) = 0 \<and> e = 1 \<and> strd = 0 \<longrightarrow> False"
      if "strided_loop s e strd acc = Some vf" for s e strd
    proof (rule strided_loop.raw_induct
        [where P = "\<lambda>s e strd acc vf. s = 0 \<and> e = 1 \<and> strd = 0 \<longrightarrow> False", OF _ that])
      fix loop :: "i32 \<Rightarrow> i32 \<Rightarrow> i32 \<Rightarrow> i32 list \<Rightarrow> i32 list option"
        and s e strd :: i32 and acc vf :: "i32 list"
      assume IH: "\<And>s e strd acc vf. loop s e strd acc = Some vf \<Longrightarrow>
                    s = 0 \<and> e = 1 \<and> strd = 0 \<longrightarrow> False"
        and eq: "(if s <s e then loop (s + strd) e strd (acc @ [s]) else Some acc) = Some vf"
      show "s = 0 \<and> e = 1 \<and> strd = 0 \<longrightarrow> False"
      proof
        assume "s = 0 \<and> e = 1 \<and> strd = 0"
        then have a: "s = 0" "e = 1" "strd = 0" by simp_all
        have "(0 :: i32) <s 1" by (simp add: word_sless_alt)
        with eq have "loop 0 1 0 (acc @ [0]) = Some vf" unfolding a by simp
        from IH [OF this] show False by simp
      qed
    qed
    with Some show ?thesis by blast
  qed
  then show ?thesis
    by (simp add: compute_valid_frames_def strided_args_def)
qed

subsection \<open>C4: the gather modes force a discontinuity\<close>

text \<open>
  Claim C4. Whenever the plan of a Gather or SequenceGather descriptor is computed,
  the engine comes back with \<open>discontinuity = true\<close> and is otherwise unchanged,
  whatever the flag was before; the plan is computed for every Gather descriptor of
  fewer than \<open>2^31\<close> points whose warmup count is not negative (or is not used), and
  for every SequenceGather descriptor with exactly one interval. All and Strided
  plans return the engine unchanged.
\<close>

theorem gather_forces_discontinuity:
  "(sampling args = DecodeArgs_Gather \<or> sampling args = DecodeArgs_SequenceGather \<longrightarrow>
      (\<forall>valid_frames ev'. compute_valid_frames ev args = Some (Inr (valid_frames, ev'))
          \<longrightarrow> ev' = ev\<lparr>discontinuity := True\<rparr>))
   \<and> (sampling args = DecodeArgs_Gather \<and> length (gather_points args) < 2 ^ 31
        \<and> (needs_warmup ev \<or> 0 \<le>s warmup_count args) \<longrightarrow>
      (\<exists>valid_frames. compute_valid_frames ev args
          = Some (Inr (valid_frames, ev\<lparr>discontinuity := True\<rparr>))))
   \<and> (sampling args = DecodeArgs_SequenceGather \<and> length (gather_sequences args) = 1 \<longrightarrow>
      (\<exists>valid_frames. compute_valid_frames ev args
          = Some (Inr (valid_frames, ev\<lparr>discontinuity := True\<rparr>))))
   \<and> (sampling args = DecodeArgs_All \<or> sampling args = DecodeArgs_Strided \<longrightarrow>
      (\<forall>valid_frames ev'. compute_valid_frames ev args = Some (Inr (valid_frames, ev'))
          \<longrightarrow> ev' = ev))"
proof (intro conjI impI allI)
  fix valid_frames ev'
  assume "sampling args = DecodeArgs_Gather \<or> sampling args = DecodeArgs_SequenceGather"
    and "compute_valid_frames ev args = Some (Inr (valid_frames, ev'))"
  then show "ev' = ev\<lparr>discontinuity := True\<rparr>"
    by (auto simp: compute_valid_frames_def Let_def split: if_splits sum.splits list.splits)
next
  assume a: "sampling args = DecodeArgs_Gather \<and> length (gather_points args) < 2 ^ 31
        \<and> (needs_warmup ev \<or> 0 \<le>s warmup_count args)"
  then have "0 \<le>s (if \<not> needs_warmup ev then 0 + warmup_count args else 0)"
    by (auto simp: word_sle_eq)
  with a have "gather_loop args (if \<not> needs_warmup ev then 0 + warmup_count args else 0) []
      = Inr ([] @ drop (nat (sint (if \<not> needs_warmup ev then 0 + warmup_count args else 0)))
                    (gather_points args))"
    by (intro gather_loop_eq) simp_all
  with a show "\<exists>valid_frames. compute_valid_frames ev args
          = Some (Inr (valid_frames, ev\<lparr>discontinuity := True\<rparr>))"
    by (simp add: compute_valid_frames_def Let_def)
next
  assume a: "sampling args = DecodeArgs_SequenceGather \<and> length (gather_sequences args) = 1"
  then obtain seq0 where "gather_sequences args = [seq0]"
    by (cases "gather_sequences args") auto
  with a show "\<exists>valid_frames. compute_valid_frames ev args
          = Some (Inr (valid_frames, ev\<lparr>discontinuity := True\<rparr>))"
    by (simp add: compute_valid_frames_def gather_sequences_size_def Let_def)
next
  fix valid_frames ev'
  assume "sampling args = DecodeArgs_All \<or> sampling args = DecodeArgs_Strided"
    and "compute_valid_frames ev args = Some (Inr (valid_frames, ev'))"
  then show "ev' = ev"
    by (auto simp: compute_valid_frames_def Let_def split: if_splits option.splits)
qed

theorem gather_forces_discontinuity_witness:
  "compute_valid_frames test_evaluator (gather_args [7, 9, 12] 1)
     = Some (Inr ([9, 12], test_evaluator\<lparr>discontinuity := True\<rparr>))
   \<and> compute_valid_frames (reset test_evaluator)
        (sequence_args [\<lparr>interval_start = 4, interval_end = 6\<rparr>] 1)
     = Some (Inr ([4, 5], (reset test_evaluator)\<lparr>discontinuity := True\<rparr>))
   \<and> compute_valid_frames test_evaluator (all_args 0 3 1)
     = Some (Inr ([1, 2], test_evaluator))
   \<and> compute_valid_frames test_evaluator (strided_args 0 20 4 1)
     = Some (Inr ([4, 8, 12, 16], test_evaluator))"
  using gather_forces_discontinuity [of "gather_args [7, 9, 12] 1" test_evaluator]
    gather_forces_discontinuity [of "sequence_args [\<lparr>interval_start = 4, interval_end = 6\<rparr>] 1"
      "reset test_evaluator"]
    gather_forces_discontinuity [of "all_args 0 3 1" test_evaluator]
    gather_forces_discontinuity [of "strided_args 0 20 4 1" test_evaluator]
  by (simp add: compute_valid_frames_def gather_args_def sequence_args_def all_args_def
      strided_args_def gather_loop.simps gather_points_size_def gather_points_at_def
      vector_at_def gather_sequences_size_def interval_loop.simps strided_loop.simps
      test_evaluator_def DecoderEvaluator_new_def reset_def word_sless_alt word_sle_eq)

subsection \<open>C5: the order of the frames kept\<close>




subsection \<open>C6: frames used and frames decoded\<close>




subsection \<open>C7: the warmup flag after a call\<close>

text \<open>
  Claim C7, as amended. After an \<^verbatim>\<open>evaluate\<close> call that returns and had at least one
  input, \<open>needs_warmup\<close> is false; a returning call on an engine whose flag is false
  leaves it false, whatever the input. \<^verbatim>\<open>reset()\<close> sets both \<open>needs_warmup\<close> and
  \<open>discontinuity\<close> to true.
\<close>

theorem warmup_cleared_until_reset:
  "(evaluate ext ev input_buffers input_sizes out_buffers out_sizes = Some (Inr st')
      \<and> ((input_buffers \<noteq> [] \<and> input_buffers ! 0 \<noteq> []) \<or> \<not> needs_warmup ev)
      \<longrightarrow> \<not> needs_warmup (evaluator st'))
   \<and> needs_warmup (reset ev) \<and> discontinuity (reset ev)"
proof (intro conjI impI)
  assume a: "evaluate ext ev input_buffers input_sizes out_buffers out_sizes = Some (Inr st')
      \<and> ((input_buffers \<noteq> [] \<and> input_buffers ! 0 \<noteq> []) \<or> \<not> needs_warmup ev)"
  let ?n = "if input_buffers = [] then 0 else length (input_buffers ! 0)"
  let ?st = "\<lparr>evaluator = ev, output_buffers = out_buffers, output_sizes = out_sizes,
            total_frames_decoded = 0, total_frames_used = 0,
            encoded_buffer_offset = 0, current_frame = 0, valid_index = 0\<rparr>"
  from a have "inputs_loop ext input_buffers input_sizes ?n 0 ?st = Some (Inr st')"
    by (simp add: evaluate_def Let_def)
  moreover from a have "0 < ?n \<or> \<not> needs_warmup (evaluator ?st)" by auto
  ultimately show "\<not> needs_warmup (evaluator st')" by (rule inputs_loop_warmed)
qed (simp_all add: reset_def)

theorem warmup_cleared_until_reset_witness:
  "evaluate test_externals (reset test_evaluator) one_input one_input_sizes [[]] [[]]
     = Some (Inr three_frames_state)
   \<and> one_input \<noteq> [] \<and> one_input ! 0 \<noteq> []
   \<and> \<not> needs_warmup (evaluator three_frames_state)
   \<and> evaluate test_externals (evaluator three_frames_state) [] [] [[]] [[]]
     = Some (Inr (test_state (evaluator three_frames_state)))
   \<and> \<not> needs_warmup (evaluator (test_state (evaluator three_frames_state)))
   \<and> needs_warmup (reset test_evaluator) \<and> discontinuity (reset test_evaluator)"
proof -
  have inputs: "one_input \<noteq> []" "one_input ! 0 \<noteq> []"
    by (simp_all add: one_input_def)
  note fact = warmup_cleared_until_reset [of test_externals "reset test_evaluator" one_input
      one_input_sizes "[[]]" "[[]]" three_frames_state]
  from fact inputs test_run_evaluate
  have warm: "\<not> needs_warmup (evaluator three_frames_state)"
    by blast
  have again: "evaluate test_externals (evaluator three_frames_state) [] [] [[]] [[]]
                 = Some (Inr (test_state (evaluator three_frames_state)))"
    by (simp add: evaluate_no_inputs test_state_def)
  from warmup_cleared_until_reset [of test_externals "evaluator three_frames_state" "[]" "[]"
      "[[]]" "[[]]" "test_state (evaluator three_frames_state)"] again warm
  have still: "\<not> needs_warmup (evaluator (test_state (evaluator three_frames_state)))"
    by blast
  have "needs_warmup (reset test_evaluator)" "discontinuity (reset test_evaluator)"
    by (simp_all add: reset_def)
  with inputs test_run_evaluate warm again still show ?thesis by blast
qed

text \<open>
  Claim C7 as stated fails for a call without input: after \<^verbatim>\<open>reset()\<close> such a call
  returns and \<open>needs_warmup\<close> is still true.
\<close>

theorem reset_then_empty_call_counterexample:
  "evaluate test_externals (reset test_evaluator) [] [] [[]] [[]] =
     Some (Inr \<lparr>evaluator = reset test_evaluator, output_buffers = [[]], output_sizes = [[]],
                total_frames_decoded = 0, total_frames_used = 0,
                encoded_buffer_offset = 0, current_frame = 0, valid_index = 0\<rparr>)
   \<and> needs_warmup (reset test_evaluator)"
  by (simp add: evaluate_no_inputs reset_def)

subsection \<open>C8: a decoder that yields no frame\<close>




subsection \<open>C9: where the flags are written\<close>

text \<open>
  Claim C9, as amended. Computing the plan leaves \<open>needs_warmup\<close> as it was and sets
  \<open>discontinuity\<close> for a Gather or SequenceGather descriptor. Every pass of the decode
  loop that completes then assigns \<open>discontinuity\<close>: after the pass it is true exactly
  when the packet of that pass was the empty packet; so within one call the flag is
  written once per packet fed. The pass leaves \<open>needs_warmup\<close> as it was, and the decode
  of an input that returns has cleared it.
\<close>

theorem flags_update_points:
  "(compute_valid_frames ev args = Some (Inr (valid_frames, ev'))
    \<longrightarrow> needs_warmup ev' = needs_warmup ev
        \<and> discontinuity ev'
            = (discontinuity ev \<or> sampling args = DecodeArgs_Gather
               \<or> sampling args = DecodeArgs_SequenceGather))
   \<and> (decode_iteration ext valid_frames tot encoded_buffer encoded_buffer_size st
      = Some (Inr st')
    \<longrightarrow> (\<exists>n pkt off. next_packet encoded_buffer encoded_buffer_size (encoded_buffer_offset st)
                         = Inr (n, pkt, off)
            \<and> discontinuity (evaluator st') = (n = 0))
        \<and> needs_warmup (evaluator st') = needs_warmup (evaluator st))
   \<and> (decode_args ext args encoded_buffer encoded_buffer_size st = Some (Inr st2)
    \<longrightarrow> \<not> needs_warmup (evaluator st2))"
  using compute_valid_frames_flags decode_iteration_flags decode_args_warmed by blast

theorem flags_update_points_witness:
  "compute_valid_frames (reset test_evaluator) (all_args 0 3 0)
     = Some (Inr ([0, 1, 2], reset test_evaluator))
   \<and> decode_iteration test_externals [0, 1, 2] 3 three_packets 15
     (test_state (reset test_evaluator)) = Some (Inr first_frame_state)
   \<and> next_packet three_packets 15 (encoded_buffer_offset (test_state (reset test_evaluator)))
       = Inr (1, Some [170, 1, 0, 0, 0, 187, 1, 0, 0, 0, 204], 5)
   \<and> \<not> discontinuity (evaluator first_frame_state)
   \<and> needs_warmup (evaluator first_frame_state)
   \<and> decode_args test_externals (all_args 0 3 0) three_packets 15
        (test_state (reset test_evaluator)) = Some (Inr three_frames_state)
   \<and> \<not> needs_warmup (evaluator three_frames_state)"
proof -
  note fact = flags_update_points [of "reset test_evaluator" "all_args 0 3 0" "[0, 1, 2]"
      "reset test_evaluator" test_externals 3 three_packets 15
      "test_state (reset test_evaluator)" first_frame_state three_frames_state]
  have plan: "compute_valid_frames (reset test_evaluator) (all_args 0 3 0)
     = Some (Inr ([0, 1, 2], reset test_evaluator))"
    using test_plan_all by (simp add: test_state_def)
  have pkt: "next_packet three_packets 15
               (encoded_buffer_offset (test_state (reset test_evaluator)))
             = Inr (1, Some [170, 1, 0, 0, 0, 187, 1, 0, 0, 0, 204], 5)"
    by (simp add: next_packet_def read_i32_def three_packets_def word_rcat_def test_state_def)
  from fact test_run_iteration pkt have "\<not> discontinuity (evaluator first_frame_state)"
    by auto
  moreover from fact test_run_iteration
  have "needs_warmup (evaluator first_frame_state)
          = needs_warmup (evaluator (test_state (reset test_evaluator)))"
    by blast
  then have "needs_warmup (evaluator first_frame_state)"
    by (simp add: test_state_def reset_def)
  moreover from fact test_run_all have "\<not> needs_warmup (evaluator three_frames_state)"
    by blast
  ultimately show ?thesis using plan pkt test_run_iteration test_run_all by blast
qed

text \<open>
  Claim C9 as stated fails: on a new engine, whose \<open>discontinuity\<close> is false, one decode
  of the Gather plan \<open>[0, 1]\<close> feeds the decoder first with \<open>discontinuity = true\<close> and
  then with \<open>discontinuity = false\<close> (the log \<open>fed\<close> of the test decoder): the flag was
  written at least twice within the call.
\<close>

theorem discontinuity_rewritten_counterexample:
  "\<not> discontinuity (evaluator (test_state test_evaluator))
   \<and> decode_args test_externals (gather_args [0, 1] 0) three_packets 10
        (test_state test_evaluator) = Some (Inr two_frames_state)
   \<and> fed (decoder (evaluator two_frames_state)) = [True, False]
   \<and> \<not> discontinuity (evaluator two_frames_state)"
proof -
  have "\<not> discontinuity (evaluator (test_state test_evaluator))"
    by (simp add: test_state_def test_evaluator_def DecoderEvaluator_new_def)
  moreover have "fed (decoder (evaluator two_frames_state)) = [True, False]"
    "\<not> discontinuity (evaluator two_frames_state)"
    by (simp_all add: two_frames_state_def)
  ultimately show ?thesis using test_run_gather by blast
qed

subsection \<open>C10: a call without input\<close>

text \<open>
  Claim C10. When \<^verbatim>\<open>input_buffers\<close> is empty or its first channel is empty,
  \<^verbatim>\<open>evaluate\<close> returns with the output vectors and the engine, both flags included,
  as they were, and with both totals at 0: the call does not clear \<open>needs_warmup\<close>.
\<close>

theorem empty_input_no_effect:
  "input_buffers = [] \<or> input_buffers ! 0 = [] \<Longrightarrow>
   evaluate ext ev input_buffers input_sizes out_buffers out_sizes =
     Some (Inr \<lparr>evaluator = ev, output_buffers = out_buffers, output_sizes = out_sizes,
                total_frames_decoded = 0, total_frames_used = 0,
                encoded_buffer_offset = 0, current_frame = 0, valid_index = 0\<rparr>)"
  by (rule evaluate_no_inputs)

theorem empty_input_no_effect_witness:
  "evaluate test_externals (reset test_evaluator) [] [] [[]] [[]] =
     Some (Inr \<lparr>evaluator = reset test_evaluator, output_buffers = [[]], output_sizes = [[]],
                total_frames_decoded = 0, total_frames_used = 0,
                encoded_buffer_offset = 0, current_frame = 0, valid_index = 0\<rparr>)
   \<and> evaluate test_externals test_evaluator [[], []] [[], []] [[]] [[]] =
     Some (Inr \<lparr>evaluator = test_evaluator, output_buffers = [[]], output_sizes = [[]],
                total_frames_decoded = 0, total_frames_used = 0,
                encoded_buffer_offset = 0, current_frame = 0, valid_index = 0\<rparr>)"
  using empty_input_no_effect [of "[]" test_externals "reset test_evaluator" "[]" "[[]]" "[[]]"]
    empty_input_no_effect [of "[[], []]" test_externals test_evaluator "[[], []]" "[[]]" "[[]]"]
  by simp


end
